theory Spec2Isabelle
  imports Main "HOL-Library.Word" "HOL-Library.Signed_Division"
begin

unbundle bit_operations_syntax

section \<open>Native symbol tables: NativeFunc, CodeBlob, CodeCache (codeCache.h, codeCache.cpp)\<close>

text \<open>
  Addresses (\<^verbatim>\<open>const void*\<close>) are 64-bit words; pointer comparison is the unsigned
  order of the words. A \<^verbatim>\<open>char*\<close> name is the handle of the \<^verbatim>\<open>NativeFunc\<close> header
  it lives in, so a nullable name is a \<open>NativeFunc option\<close>.
\<close>

type_synonym addr = "64 word"

record NativeFunc =
  nf_lib_index :: int
  nf_mark :: int
  nf_name :: string

definition NativeFunc_create :: "string \<Rightarrow> int \<Rightarrow> NativeFunc" where
  "NativeFunc_create name lib_index =
     \<lparr>nf_lib_index = lib_index, nf_mark = 0, nf_name = name\<rparr>"

record CodeBlob =
  blob_start :: addr
  blob_end :: addr
  blob_name :: "NativeFunc option"

text \<open>\<^verbatim>\<open>CodeBlob::comparator\<close>: start ascending, ties by end descending.\<close>

definition comparator :: "CodeBlob \<Rightarrow> CodeBlob \<Rightarrow> int" where
  "comparator cb1 cb2 =
     (if blob_start cb1 < blob_start cb2 then -1
      else if blob_start cb1 > blob_start cb2 then 1
      else if blob_end cb1 = blob_end cb2 then 0
      else (if blob_end cb1 > blob_end cb2 then -1 else 1))"

text \<open>
  \<^verbatim>\<open>new CodeBlob[n]\<close> leaves its slots indeterminate; the model fills them with
  \<open>raw_blob\<close>. No operation below reads a slot at or beyond \<open>count\<close>.
\<close>

definition raw_blob :: CodeBlob where
  "raw_blob = \<lparr>blob_start = 0, blob_end = 0, blob_name = None\<rparr>"

definition INITIAL_CODE_CACHE_CAPACITY :: int where
  "INITIAL_CODE_CACHE_CAPACITY = 1000"

definition NO_MIN_ADDRESS :: addr where
  "NO_MIN_ADDRESS = -1"

definition NO_MAX_ADDRESS :: addr where
  "NO_MAX_ADDRESS = 0"

text \<open>
  The class \<^verbatim>\<open>CodeCache\<close>. \<^verbatim>\<open>FrameDesc\<close> is declared elsewhere (dwarf.h), so the
  type of the dwarf table's entries is a parameter. \<open>blobs\<close> is the array
  \<^verbatim>\<open>_blobs\<close>, of \<open>capacity\<close> slots; \<open>dwarf_table\<close> is \<open>None\<close> for a null pointer.
\<close>

record 'f CodeCache =
  cc_name :: "NativeFunc option"
  lib_index :: int
  min_address :: addr
  max_address :: addr
  text_base :: addr
  got_start :: addr
  got_end :: addr
  got_patchable :: bool
  dwarf_table :: "'f list option"
  dwarf_table_length :: int
  capacity :: int
  count :: int
  blobs :: "CodeBlob list"

text \<open>The constructor \<^verbatim>\<open>CodeCache(name, lib_index, min_address, max_address)\<close>.\<close>

definition CodeCache_new :: "string \<Rightarrow> int \<Rightarrow> addr \<Rightarrow> addr \<Rightarrow> 'f CodeCache" where
  "CodeCache_new name lib_idx min_addr max_addr =
     \<lparr>cc_name = Some (NativeFunc_create name (-1)),
      lib_index = lib_idx,
      min_address = min_addr,
      max_address = max_addr,
      text_base = 0,
      got_start = 0,
      got_end = 0,
      got_patchable = False,
      dwarf_table = None,
      dwarf_table_length = 0,
      capacity = INITIAL_CODE_CACHE_CAPACITY,
      count = 0,
      blobs = replicate (nat INITIAL_CODE_CACHE_CAPACITY) raw_blob\<rparr>"

text \<open>
  The copy constructor. It leaves \<^verbatim>\<open>_got_patchable\<close> uninitialised: the value the
  member happens to hold is the argument \<open>junk\<close>. \<^verbatim>\<open>memcpy\<close> copies the first
  \<open>dwarf_table_length\<close> frame descriptors and the first \<open>count\<close> blobs into
  fresh arrays. The name of the source is read through \<^verbatim>\<open>strlen\<close> and \<^verbatim>\<open>strcpy\<close>; every
  constructor sets it, so it is never null.
\<close>

definition CodeCache_copy :: "bool \<Rightarrow> 'f CodeCache \<Rightarrow> 'f CodeCache" where
  "CodeCache_copy junk other =
     \<lparr>cc_name = Some (NativeFunc_create (nf_name (the (cc_name other))) (-1)),
      lib_index = lib_index other,
      min_address = min_address other,
      max_address = max_address other,
      text_base = text_base other,
      got_start = 0,
      got_end = 0,
      got_patchable = junk,
      dwarf_table =
        Some (take (nat (dwarf_table_length other))
                (case dwarf_table other of None \<Rightarrow> [] | Some t \<Rightarrow> t)),
      dwarf_table_length = dwarf_table_length other,
      capacity = capacity other,
      count = count other,
      blobs = take (nat (count other)) (blobs other)
              @ replicate (nat (capacity other) - nat (count other)) raw_blob\<rparr>"

text \<open>
  Memory faults: freeing a pointer that no allocator handed out, writing beyond an
  allocated block, reading beyond an array, and \<^verbatim>\<open>new T[n]\<close> with a negative \<open>n\<close>.
  C++ leaves each of them undefined or throws; the model stops there and reports it.
\<close>

datatype memory_fault = InvalidFree | WriteBeyondBlock | BadArrayLength | ReadBeyondArray

text \<open>
  \<^verbatim>\<open>delete _name\<close>. \<^verbatim>\<open>_name\<close> is the pointer \<^verbatim>\<open>NativeFunc::create\<close> returned:
  \<^verbatim>\<open>f->_name\<close>, four bytes into the \<^verbatim>\<open>malloc\<close> block that starts with the header. It
  is not the start of a block, so releasing it is an invalid free, which the C library
  answers by aborting. (The destructor releases names through \<^verbatim>\<open>NativeFunc::destroy\<close>,
  which steps back to the start of the block.) Deleting a null pointer does nothing.
\<close>

definition delete_name :: "NativeFunc option \<Rightarrow> memory_fault + unit" where
  "delete_name p = (case p of None \<Rightarrow> Inr () | Some f \<Rightarrow> Inl InvalidFree)"

text \<open>
  Copy assignment \<^verbatim>\<open>operator=\<close>. Objects are told apart by their address, so the
  caches live in a store and the operator takes the two addresses:
  \<open>this\<close> and the address of \<open>other\<close>. Self-assignment returns at once. Otherwise
  the operator opens with \<^verbatim>\<open>delete _name; delete _dwarf_table; delete _blobs;\<close> and
  then sets the members. \<^verbatim>\<open>delete _dwarf_table\<close> and \<^verbatim>\<open>delete _blobs\<close> release
  arrays; their form does not match \<^verbatim>\<open>new[]\<close>, but implementations release the block,
  and the model lets them pass.
\<close>

type_synonym 'f store = "nat \<rightharpoonup> 'f CodeCache"

definition CodeCache_assign :: "'f store \<Rightarrow> nat \<Rightarrow> nat \<Rightarrow> memory_fault + 'f store" where
  "CodeCache_assign h this other_p =
     (if other_p = this then Inr h
      else (case (h this, h other_p) of
              (Some self, Some other) \<Rightarrow>
                (case delete_name (cc_name self) of
                   Inl f \<Rightarrow> Inl f
                 | Inr u \<Rightarrow>
                     Inr (h(this \<mapsto> self\<lparr>
                       cc_name := Some (NativeFunc_create (nf_name (the (cc_name other))) (-1)),
                       lib_index := lib_index other,
                       min_address := min_address other,
                       max_address := max_address other,
                       text_base := text_base other,
                       got_start := got_start other,
                       got_end := got_end other,
                       dwarf_table := None,
                       dwarf_table_length := 0,
                       capacity := INITIAL_CODE_CACHE_CAPACITY,
                       count := 0,
                       blobs := replicate (nat INITIAL_CODE_CACHE_CAPACITY) raw_blob\<rparr>)))
            | _ \<Rightarrow> Inr h))"

text \<open>\<^verbatim>\<open>expand\<close> doubles the array and keeps the first \<open>count\<close> blobs.\<close>

definition expand :: "'f CodeCache \<Rightarrow> 'f CodeCache" where
  "expand c =
     c\<lparr>blobs := take (nat (count c)) (blobs c)
                 @ replicate (nat (capacity c * 2) - nat (count c)) raw_blob,
       capacity := capacity c * 2\<rparr>"

definition updateBounds :: "'f CodeCache \<Rightarrow> addr \<Rightarrow> addr \<Rightarrow> 'f CodeCache" where
  "updateBounds c start end' =
     (let c1 = (if start < min_address c then c\<lparr>min_address := start\<rparr> else c)
      in if end' > max_address c1 then c1\<lparr>max_address := end'\<rparr> else c1)"

text \<open>
  \<^verbatim>\<open>add\<close>: the name is copied with every character below the space replaced by a
  question mark (\<^verbatim>\<open>char\<close> is signed on the x86-64 target, so the bytes from 128 on
  are below the space too); \<open>length\<close> is a C \<^verbatim>\<open>int\<close> added to the start pointer.
\<close>

definition sanitize :: "string \<Rightarrow> string" where
  "sanitize s = map (\<lambda>ch. if (of_char ch :: nat) < 32 \<or> 128 \<le> (of_char ch :: nat)
                            then CHR ''?'' else ch) s"

definition add :: "'f CodeCache \<Rightarrow> addr \<Rightarrow> int \<Rightarrow> string \<Rightarrow> bool \<Rightarrow> 'f CodeCache" where
  "add c start len name update_bounds =
     (let name_copy = NativeFunc_create (sanitize name) (lib_index c);
          c1 = (if count c \<ge> capacity c then expand c else c);
          end' = start + word_of_int len;
          c2 = c1\<lparr>blobs := (blobs c1)[nat (count c1) :=
                       \<lparr>blob_start = start, blob_end = end', blob_name = Some name_copy\<rparr>],
                   count := count c1 + 1\<rparr>
      in if update_bounds then updateBounds c2 start end' else c2)"

text \<open>
  \<^verbatim>\<open>sort\<close> calls the C library's \<^verbatim>\<open>qsort\<close> with \<^verbatim>\<open>CodeBlob::comparator\<close>. The
  library routine is modelled by an insertion sort under the same comparator (the
  order \<^verbatim>\<open>qsort\<close> gives to blobs that compare equal is not specified by C).
\<close>

fun insert_blob :: "CodeBlob \<Rightarrow> CodeBlob list \<Rightarrow> CodeBlob list" where
  "insert_blob x [] = [x]"
| "insert_blob x (y # ys) =
     (if comparator x y \<le> 0 then x # y # ys else y # insert_blob x ys)"

fun qsort_blobs :: "CodeBlob list \<Rightarrow> CodeBlob list" where
  "qsort_blobs [] = []"
| "qsort_blobs (x # xs) = insert_blob x (qsort_blobs xs)"

definition sort_cache :: "'f CodeCache \<Rightarrow> 'f CodeCache" where
  "sort_cache c =
     (if count c = 0 then c
      else
        (let n = nat (count c);
             c1 = c\<lparr>blobs := qsort_blobs (take n (blobs c)) @ drop n (blobs c)\<rparr>;
             c2 = (if min_address c1 = NO_MIN_ADDRESS
                   then c1\<lparr>min_address := blob_start (blobs c1 ! 0)\<rparr> else c1)
         in if max_address c2 = NO_MAX_ADDRESS
            then c2\<lparr>max_address := blob_end (blobs c2 ! nat (count c2 - 1))\<rparr> else c2))"

text \<open>
  \<^verbatim>\<open>binarySearch\<close>. The loop either returns a name from inside (\<open>Inl\<close>) or falls
  through with the final value of \<open>low\<close> (\<open>Inr\<close>). \<open>low\<close> and \<open>high\<close> stay within
  \<open>0 .. count - 1\<close>, where \<open>count\<close> is a C \<^verbatim>\<open>int\<close>, so their sum is below
  \<open>2 ^ 32\<close> and \<^verbatim>\<open>(unsigned int)(low + high) >> 1\<close> is the exact half of the sum.
\<close>

function binarySearch_loop :: "CodeBlob list \<Rightarrow> addr \<Rightarrow> int \<Rightarrow> int \<Rightarrow> NativeFunc option + int" where
  "binarySearch_loop bs address low high =
     (if low \<le> high then
        (let mid = (low + high) div 2 in
           if blob_end (bs ! nat mid) \<le> address then binarySearch_loop bs address (mid + 1) high
           else if blob_start (bs ! nat mid) > address then binarySearch_loop bs address low (mid - 1)
           else Inl (blob_name (bs ! nat mid)))
      else Inr low)"
  by pat_completeness auto
termination
  by (relation "measure (\<lambda>(bs, address, low, high). nat (high - low + 1))") auto

declare binarySearch_loop.simps [simp del]

definition binarySearch :: "'f CodeCache \<Rightarrow> addr \<Rightarrow> NativeFunc option" where
  "binarySearch c address =
     (case binarySearch_loop (blobs c) address 0 (count c - 1) of
        Inl name \<Rightarrow> name
      | Inr low \<Rightarrow>
          if low > 0 \<and> (blob_start (blobs c ! nat (low - 1)) = blob_end (blobs c ! nat (low - 1))
                         \<or> blob_end (blobs c ! nat (low - 1)) = address)
          then blob_name (blobs c ! nat (low - 1))
          else cc_name c)"

section \<open>The recorder's byte buffer (flightRecorder.cpp, class Buffer)\<close>

text \<open>
  \<^verbatim>\<open>Buffer\<close> is a cursor \<^verbatim>\<open>_offset\<close> into the fixed array \<^verbatim>\<open>_data\<close> of
  \<^verbatim>\<open>BUFFER_SIZE - sizeof(int)\<close> bytes. The source does not check the cursor against
  the array; in the model a write beyond the array changes nothing (list update out
  of range), and the theorems on the encoders assume the room they need.
\<close>

definition BUFFER_SIZE :: nat where
  "BUFFER_SIZE = 1024"

record Buffer =
  offset :: nat
  data :: "8 word list"

text \<open>
  The constructor sets the cursor to 0 and leaves the array as the memory was:
  \<open>mem\<close>, cut or padded to the size of the array.
\<close>

definition Buffer_new :: "8 word list \<Rightarrow> Buffer" where
  "Buffer_new mem =
     \<lparr>offset = 0, data = take (BUFFER_SIZE - 4) (mem @ replicate (BUFFER_SIZE - 4) 0)\<rparr>"

definition put8 :: "Buffer \<Rightarrow> 8 word \<Rightarrow> Buffer" where
  "put8 b v = b\<lparr>data := (data b)[offset b := v], offset := offset b + 1\<rparr>"

text \<open>
  \<^verbatim>\<open>putVar32\<close>: \<^verbatim>\<open>(char)v | 0x80\<close> stored into a \<^verbatim>\<open>char\<close> keeps the low eight bits of
  \<open>v\<close> with the top one set.
\<close>

function putVar32 :: "Buffer \<Rightarrow> 32 word \<Rightarrow> Buffer" where
  "putVar32 b v =
     (if v > 0x7f then putVar32 (put8 b (ucast v OR 0x80)) (drop_bit 7 v)
      else put8 b (ucast v))"
  by pat_completeness auto
termination
proof (relation "measure (\<lambda>(b, v). unat v)")
  show "wf (measure (\<lambda>(b, v). unat v))" by simp
next
  fix b :: Buffer and v :: "32 word"
  assume "0x7f < v"
  then have "0 < unat v" by (simp add: word_less_nat_alt)
  then have "unat v div 2 ^ 7 < unat v" by simp
  then show "((put8 b (ucast v OR 0x80), drop_bit 7 v), (b, v)) \<in> measure (\<lambda>(b, v). unat v)"
    by (simp add: drop_bit_eq_div unat_div)
qed

declare putVar32.simps [simp del]

text \<open>
  \<^verbatim>\<open>putVar64\<close>. The first loop writes three septets per round and returns from the
  function after its third round (\<open>Inr\<close>: returned, nine bytes written); otherwise it
  falls through (\<open>Inl\<close>) to the second loop, which is the loop of \<^verbatim>\<open>putVar32\<close> on a
  64-bit value and writes the final byte.
\<close>

function putVar64_unrolled :: "Buffer \<Rightarrow> 64 word \<Rightarrow> int \<Rightarrow> (Buffer \<times> 64 word) + Buffer" where
  "putVar64_unrolled b v iter =
     (if v > 0x1fffff then
        (let b1 = put8 b (ucast v OR 0x80); v1 = drop_bit 7 v;
             b2 = put8 b1 (ucast v1 OR 0x80); v2 = drop_bit 7 v1;
             b3 = put8 b2 (ucast v2 OR 0x80); v3 = drop_bit 7 v2
         in if iter + 1 = 3 then Inr b3 else putVar64_unrolled b3 v3 (iter + 1))
      else Inl (b, v))"
  by pat_completeness auto
termination
proof (relation "measure (\<lambda>(b, v, iter). unat v)")
  show "wf (measure (\<lambda>(b, v, iter). unat v))" by simp
next
  fix b b1 b2 b3 :: Buffer and v v1 v2 v3 :: "64 word" and iter :: int
  assume "0x1fffff < v" and v1: "v1 = drop_bit 7 v" and v2: "v2 = drop_bit 7 v1"
    and v3: "v3 = drop_bit 7 v2"
  then have "0 < unat v" by (simp add: word_less_nat_alt)
  then have "unat v div 2 ^ 7 div 2 ^ 7 div 2 ^ 7 < unat v"
    by (simp add: div_mult2_eq [symmetric])
  then show "((b3, v3, iter + 1), (b, v, iter)) \<in> measure (\<lambda>(b, v, iter). unat v)"
    by (simp add: v1 v2 v3 drop_bit_eq_div unat_div)
qed

declare putVar64_unrolled.simps [simp del]

function putVar64_tail :: "Buffer \<Rightarrow> 64 word \<Rightarrow> Buffer" where
  "putVar64_tail b v =
     (if v > 0x7f then putVar64_tail (put8 b (ucast v OR 0x80)) (drop_bit 7 v)
      else put8 b (ucast v))"
  by pat_completeness auto
termination
proof (relation "measure (\<lambda>(b, v). unat v)")
  show "wf (measure (\<lambda>(b, v). unat v))" by simp
next
  fix b :: Buffer and v :: "64 word"
  assume "0x7f < v"
  then have "0 < unat v" by (simp add: word_less_nat_alt)
  then have "unat v div 2 ^ 7 < unat v" by simp
  then show "((put8 b (ucast v OR 0x80), drop_bit 7 v), (b, v)) \<in> measure (\<lambda>(b, v). unat v)"
    by (simp add: drop_bit_eq_div unat_div)
qed

declare putVar64_tail.simps [simp del]

definition putVar64 :: "Buffer \<Rightarrow> 64 word \<Rightarrow> Buffer" where
  "putVar64 b v =
     (case putVar64_unrolled b v 0 of
        Inr b' \<Rightarrow> b'
      | Inl (b', v') \<Rightarrow> putVar64_tail b' v')"

text \<open>The bytes a call wrote: the part of the array between the two cursors.\<close>

definition written :: "Buffer \<Rightarrow> Buffer \<Rightarrow> 8 word list" where
  "written b b' = take (offset b' - offset b) (drop (offset b) (data b'))"

text \<open>
  Modelled from the spec: the decoder. The repository only writes varints (the reader
  of the trace is a separate program); the spec gives the format as "unsigned
  varint: 7 bits per byte, continuation in high bit", least significant septet
  first as the encoders emit them. \<open>getVar\<close> reads one varint from the front of
  a byte sequence and returns its value with the bytes left over; it fails when the
  bytes end before a byte without the continuation bit.
\<close>

fun getVar :: "8 word list \<Rightarrow> (nat \<times> 8 word list) option" where
  "getVar [] = None"
| "getVar (x # xs) =
     (if x AND 0x80 = 0 then Some (unat x, xs)
      else (case getVar xs of
              None \<Rightarrow> None
            | Some (r, rest) \<Rightarrow> Some (unat (x AND 0x7f) + 128 * r, rest)))"

section \<open>The per-thread context table (context.cpp)\<close>

text \<open>
  The fields of \<^verbatim>\<open>Context\<close> that \<^verbatim>\<open>Contexts::get\<close> reads. \<^verbatim>\<open>DD_EMPTY_CONTEXT\<close> is
  zero-initialised.
\<close>

record Context =
  spanId :: "64 word"
  rootSpanId :: "64 word"
  checksum :: "64 word"

definition DD_EMPTY_CONTEXT :: Context where
  "DD_EMPTY_CONTEXT = \<lparr>spanId = 0, rootSpanId = 0, checksum = 0\<rparr>"

text \<open>
  Modelled from the spec: the page geometry. The constants \<^verbatim>\<open>DD_CONTEXT_PAGE_SIZE\<close>,
  \<^verbatim>\<open>DD_CONTEXT_PAGE_MASK\<close> and \<^verbatim>\<open>DD_CONTEXT_PAGE_SHIFT\<close> are declared in context.h,
  which is not among the sources. The spec has pages of \<^verbatim>\<open>PAGE_SIZE\<close> records, a power
  of two, and maps a thread id to \<^verbatim>\<open>(tid >> shift, tid & mask)\<close>. The shift is a
  parameter of the model; size and mask follow from it.
\<close>

definition DD_CONTEXT_PAGE_SIZE :: "nat \<Rightarrow> nat" where
  "DD_CONTEXT_PAGE_SIZE shift = 2 ^ shift"

definition DD_CONTEXT_PAGE_MASK :: "nat \<Rightarrow> int" where
  "DD_CONTEXT_PAGE_MASK shift = 2 ^ shift - 1"

text \<open>
  The static state of \<^verbatim>\<open>Contexts\<close>: \<^verbatim>\<open>_max_pages\<close> and the array \<^verbatim>\<open>_pages\<close> of page
  pointers (\<open>None\<close> is the null pointer).
\<close>

record Contexts =
  max_pages :: int
  pages :: "Context list option list"

text \<open>
  \<^verbatim>\<open>Contexts::get\<close> returns a reference: to the shared empty record or to a slot of
  a page. A failed \<^verbatim>\<open>assert\<close> aborts. A negative page index passes the assertion
  and reads in front of the array, which C++ leaves undefined; the model reports it.
\<close>

datatype fault = AssertionFailed | OutOfBounds

datatype ctx_ref = EmptyContext | PageSlot nat nat

definition Contexts_get :: "nat \<Rightarrow> Contexts \<Rightarrow> int \<Rightarrow> fault + ctx_ref" where
  "Contexts_get shift cs tid =
     (let pageIndex = drop_bit shift tid in
        if \<not> pageIndex < max_pages cs then Inl AssertionFailed
        else if pageIndex < 0 then Inl OutOfBounds
        else
          (case pages cs ! nat pageIndex of
             None \<Rightarrow> Inr EmptyContext
           | Some page \<Rightarrow>
               (let slot = nat (tid AND DD_CONTEXT_PAGE_MASK shift);
                    context = page ! slot
                in if spanId context XOR rootSpanId context = checksum context
                   then Inr (PageSlot (nat pageIndex) slot)
                   else Inr EmptyContext)))"

definition deref :: "Contexts \<Rightarrow> ctx_ref \<Rightarrow> Context" where
  "deref cs r =
     (case r of
        EmptyContext \<Rightarrow> DD_EMPTY_CONTEXT
      | PageSlot p i \<Rightarrow> (case pages cs ! p of None \<Rightarrow> DD_EMPTY_CONTEXT | Some page \<Rightarrow> page ! i))"

section \<open>Chunk rotation of the recorder (flightRecorder.cpp, class Recording)\<close>

definition MAX_JLONG :: "64 word" where
  "MAX_JLONG = 0x7fffffffffffffff"

text \<open>
  The members of \<^verbatim>\<open>Recording\<close> that \<^verbatim>\<open>needSwitchChunk\<close> reads, and the lines of the
  constructor that set them. \<^verbatim>\<open>args._chunk_size\<close> and \<^verbatim>\<open>args._chunk_time\<close> are
  signed \<^verbatim>\<open>long\<close> values (arguments.h is not among the sources); converting them
  to \<^verbatim>\<open>u64\<close> and multiplying by \<^verbatim>\<open>1000000ULL\<close> is arithmetic modulo \<open>2 ^ 64\<close>.
  \<open>micros\<close> is the value of \<^verbatim>\<open>OS::micros()\<close>. The constructor goes on to write the
  chunk header, which the model leaves out.
\<close>

record Recording =
  start_time :: "64 word"
  bytes_written :: "64 word"
  chunk_size :: "64 word"
  chunk_time :: "64 word"

definition Recording_new :: "int \<Rightarrow> int \<Rightarrow> 64 word \<Rightarrow> Recording" where
  "Recording_new args_chunk_size args_chunk_time micros =
     \<lparr>start_time = micros,
      bytes_written = 0,
      chunk_size = (if args_chunk_size \<le> 0 then MAX_JLONG
                    else (if args_chunk_size < 262144 then 262144 else word_of_int args_chunk_size)),
      chunk_time = (if args_chunk_time \<le> 0 then MAX_JLONG
                    else word_of_int (if args_chunk_time < 5 then 5 else args_chunk_time) * 1000000)\<rparr>"

definition needSwitchChunk :: "Recording \<Rightarrow> 64 word \<Rightarrow> bool" where
  "needSwitchChunk r wall_time =
     (bytes_written r \<ge> chunk_size r \<or> wall_time - start_time r \<ge> chunk_time r)"

section \<open>The liveness tracker (livenessTracker.cpp)\<close>

text \<open>
  A weak global reference (\<^verbatim>\<open>jweak\<close>) is a handle, \<open>None\<close> for \<^verbatim>\<open>NULL\<close>; a
  \<^verbatim>\<open>jvmtiFrameInfo\<close> is a method id with a location. The type of the allocation event
  (\<^verbatim>\<open>AllocEvent\<close>, event.h) is a parameter. An entry owns its copy of the frames.
\<close>

type_synonym jvmtiFrameInfo = "nat \<times> int"

record 'ev TrackingEntry =
  te_ref :: "nat option"
  te_tid :: int
  te_time :: "64 word"
  te_alloc :: 'ev
  te_age :: "32 word"
  te_frames_size :: int
  te_frames :: "jvmtiFrameInfo list"
  te_ctx :: Context

text \<open>The calls that give a resource back, in the order the tracker makes them.\<close>

datatype release = DeleteWeakGlobalRef "nat option" | DeleteFrames "jvmtiFrameInfo list"

text \<open>
  The members of \<^verbatim>\<open>LivenessTracker\<close>; an \<^verbatim>\<open>Error\<close> is its message, \<open>None\<close> for
  \<^verbatim>\<open>Error::OK\<close>. \<open>released\<close> is the log of the releases made so far.
\<close>

record 'ev LivenessTracker =
  initialized :: bool
  stored_error :: "string option"
  table_max_cap :: int
  table_cap :: int
  table_size :: int
  table :: "'ev TrackingEntry list"
  gc_epoch :: "64 word"
  last_gc_epoch :: "64 word"
  record_heap_usage :: bool
  used_after_last_gc :: "64 word"
  released :: "release list"

text \<open>
  What the surroundings answer during one call: the JVM (version, heap size, JNI
  lookups, weak references and whether their referents were collected), the clock,
  the context table, the allocator and the table lock. \<open>try_lock_shared\<close> is asked
  with the value of \<^verbatim>\<open>retried\<close>: once on the first pass of \<^verbatim>\<open>track\<close>, once after
  \<^verbatim>\<open>goto retry\<close>. \<open>raw_entry\<close> is the content of memory that \<^verbatim>\<open>malloc\<close> and
  \<^verbatim>\<open>realloc\<close> hand out. The model runs one thread, so a compare-and-swap on a
  value just read succeeds.
\<close>

record 'ev jvm =
  java_version :: int
  heap_max_size :: int
  runtime_max_memory :: "int option"
  class_getName_found :: bool
  new_weak_ref :: "nat option"
  try_lock_shared :: "bool \<Rightarrow> bool"
  ticks :: "64 word"
  current_context :: Context
  referent_collected :: "nat \<Rightarrow> bool"
  realloc_ok :: bool
  raw_entry :: "'ev TrackingEntry"
  last_gc_usage_supported :: bool
  heap_used :: "64 word"

text \<open>\<^verbatim>\<open>env->IsSameObject(ref, NULL)\<close>: true for a null reference and for a weak
  reference whose referent was collected.\<close>

definition IsSameObject_null :: "'ev jvm \<Rightarrow> nat option \<Rightarrow> bool" where
  "IsSameObject_null env ref = (case ref of None \<Rightarrow> True | Some r \<Rightarrow> referent_collected env r)"

text \<open>
  The loop of \<^verbatim>\<open>cleanup_table\<close>, statement by statement: \<open>i\<close> runs up to \<open>sz\<close>,
  \<open>newsz\<close> counts the entries kept.
\<close>

function cleanup_loop ::
  "'ev jvm \<Rightarrow> 32 word \<Rightarrow> nat \<Rightarrow> nat \<Rightarrow> 'ev TrackingEntry list \<Rightarrow> nat \<Rightarrow> release list
   \<Rightarrow> 'ev TrackingEntry list \<times> nat \<times> release list" where
  "cleanup_loop env epoch_diff sz i tbl newsz rel =
     (if i < sz then
        (if \<not> IsSameObject_null env (te_ref (tbl ! i)) then
           (let t1 = tbl[i := (tbl ! i)\<lparr>te_age := te_age (tbl ! i) + epoch_diff\<rparr>];
                t2 = t1[newsz := t1 ! i];
                t3 = t2[i := (t2 ! i)\<lparr>te_ref := None\<rparr>]
            in cleanup_loop env epoch_diff sz (i + 1) t3 (newsz + 1) rel)
         else
           (let rel1 = rel @ [DeleteWeakGlobalRef (te_ref (tbl ! i))];
                t1 = tbl[i := (tbl ! i)\<lparr>te_ref := None\<rparr>];
                rel2 = rel1 @ [DeleteFrames (te_frames (t1 ! i))]
            in cleanup_loop env epoch_diff sz (i + 1) t1 newsz rel2))
      else (tbl, newsz, rel))"
  by pat_completeness auto
termination
  by (relation "measure (\<lambda>(env, epoch_diff, sz, i, tbl, newsz, rel). sz - i)") auto

declare cleanup_loop.simps [simp del]

text \<open>
  \<^verbatim>\<open>cleanup_table\<close>. \<^verbatim>\<open>sz\<close> and \<^verbatim>\<open>newsz\<close> are \<^verbatim>\<open>u32\<close>, \<^verbatim>\<open>_table_size\<close> and
  \<^verbatim>\<open>epoch_diff\<close> are \<^verbatim>\<open>int\<close>; the conversions are written out.
\<close>

definition cleanup_table :: "'ev jvm \<Rightarrow> 'ev LivenessTracker \<Rightarrow> 'ev LivenessTracker" where
  "cleanup_table env s =
     (let current = last_gc_epoch s;
          target_gc_epoch = gc_epoch s
      in if target_gc_epoch = last_gc_epoch s then s
         else
           (let s1 = s\<lparr>last_gc_epoch := target_gc_epoch\<rparr>;
                epoch_diff = (ucast (target_gc_epoch - current) :: 32 word)
            in (case cleanup_loop env epoch_diff (nat (table_size s1 mod 2 ^ 32)) 0
                       (table s1) 0 (released s1) of
                  (tbl, newsz, rel) \<Rightarrow>
                    s1\<lparr>table := tbl,
                       table_size := signed_take_bit 31 (int newsz),
                       released := rel\<rparr>)))"

text \<open>
  \<^verbatim>\<open>initialize_table\<close>. \<^verbatim>\<open>MAX_TRACKING_TABLE_SIZE\<close> is declared in
  livenessTracker.h, which is not among the sources: it is a parameter.
  \<open>max_heap\<close> is a \<^verbatim>\<open>jlong\<close>; the quotient is truncated to the \<^verbatim>\<open>int\<close>
  \<^verbatim>\<open>required_table_capacity\<close>. C++ division rounds towards zero (\<open>sdiv\<close>).
  \<open>runtime_max_memory\<close> is \<open>None\<close> when one of the three JNI lookups fails.
\<close>

definition initialize_table ::
  "int \<Rightarrow> 'ev jvm \<Rightarrow> int \<Rightarrow> 'ev LivenessTracker \<Rightarrow> string option \<times> 'ev LivenessTracker" where
  "initialize_table MAX_TRACKING_TABLE_SIZE env sampling_interval s =
     (let s0 = s\<lparr>table_max_cap := 0\<rparr>;
          max_heap0 = heap_max_size env;
          max_heap = (if max_heap0 = -1
                      then (case runtime_max_memory env of None \<Rightarrow> max_heap0 | Some m \<Rightarrow> m)
                      else max_heap0)
      in if max_heap = -1
         then (Some ''Can not track liveness for allocation samples without heap size information.'', s0)
         else
           (let required_table_capacity =
                  signed_take_bit 31 (if sampling_interval > 0 then max_heap sdiv sampling_interval
                                      else max_heap);
                max_cap = (if MAX_TRACKING_TABLE_SIZE < required_table_capacity then MAX_TRACKING_TABLE_SIZE else required_table_capacity);
                cap = max 2048 (max_cap sdiv 8)
            in (None, s0\<lparr>table_max_cap := max_cap, table_cap := cap\<rparr>)))"

text \<open>
  \<^verbatim>\<open>initialize\<close>: \<open>args_memory\<close> is \<^verbatim>\<open>args._memory\<close>, passed to the \<^verbatim>\<open>int\<close>
  parameter of \<^verbatim>\<open>initialize_table\<close>. \<^verbatim>\<open>malloc\<close> is taken to succeed.
\<close>

definition initialize ::
  "int \<Rightarrow> 'ev jvm \<Rightarrow> int \<Rightarrow> bool \<Rightarrow> 'ev LivenessTracker \<Rightarrow> string option \<times> 'ev LivenessTracker" where
  "initialize MAX_TRACKING_TABLE_SIZE env args_memory args_record_heap_usage s =
     (if initialized s then (stored_error s, s)
      else
        (let s1 = s\<lparr>initialized := True\<rparr> in
           if java_version env < 11
           then (None, s1\<lparr>table_max_cap := 0, stored_error := None\<rparr>)
           else
             (case initialize_table MAX_TRACKING_TABLE_SIZE env (signed_take_bit 31 args_memory) s1 of
                (err, s2) \<Rightarrow>
                  if err \<noteq> None
                  then (None, s2\<lparr>table_max_cap := 0, stored_error := None\<rparr>)
                  else if \<not> class_getName_found env
                  then (None, s2\<lparr>table_max_cap := 0, stored_error := None\<rparr>)
                  else
                    (let cap = min 2048 (table_max_cap s2)
                     in (None, s2\<lparr>table_size := 0,
                                   table_cap := cap,
                                   table := replicate (nat cap) (raw_entry env),
                                   record_heap_usage := args_record_heap_usage,
                                   gc_epoch := 0,
                                   last_gc_epoch := 0,
                                   stored_error := None\<rparr>)))))"

text \<open>
  The compare-and-swap loop of \<^verbatim>\<open>track\<close>: it reads \<^verbatim>\<open>_table_size\<close> into \<open>idx\<close>
  and raises the size by one only while \<open>idx\<close> is below \<^verbatim>\<open>_table_cap\<close>.
\<close>

definition claim_index :: "'ev LivenessTracker \<Rightarrow> int \<times> 'ev LivenessTracker" where
  "claim_index s =
     (let idx = table_size s
      in (idx, if idx < table_cap s then s\<lparr>table_size := idx + 1\<rparr> else s))"

text \<open>
  Filling the claimed slot: \<open>new_entry\<close> is what the assignments leave in it,
  \<^verbatim>\<open>ctx\<close> being the answer of \<^verbatim>\<open>Contexts::get(tid)\<close>. The block behind \<^verbatim>\<open>_table\<close> has \<open>length (table s)\<close>
  slots; a write to a slot outside it is a fault (the source does not check).
  \<^verbatim>\<open>new jvmtiFrameInfo[num_frames]\<close> throws for a negative length, and \<^verbatim>\<open>memcpy\<close>
  reads \<open>num_frames\<close> frames from the caller's array.
\<close>

definition new_entry ::
  "'ev jvm \<Rightarrow> nat \<Rightarrow> 'ev \<Rightarrow> int \<Rightarrow> int \<Rightarrow> jvmtiFrameInfo list \<Rightarrow> 'ev TrackingEntry" where
  "new_entry env ref event tid num_frames frames =
     \<lparr>te_ref = Some ref, te_tid = tid, te_time = ticks env,
      te_alloc = event, te_age = 0, te_frames_size = num_frames,
      te_frames = take (nat num_frames) frames,
      te_ctx = current_context env\<rparr>"

definition store_entry ::
  "'ev jvm \<Rightarrow> nat \<Rightarrow> 'ev \<Rightarrow> int \<Rightarrow> int \<Rightarrow> jvmtiFrameInfo list \<Rightarrow> int
   \<Rightarrow> 'ev LivenessTracker \<Rightarrow> memory_fault + 'ev LivenessTracker" where
  "store_entry env ref event tid num_frames frames idx s =
     (if idx < 0 \<or> length (table s) \<le> nat idx then Inl WriteBeyondBlock
      else if num_frames < 0 then Inl BadArrayLength
      else if length frames < nat num_frames then Inl ReadBeyondArray
      else Inr (s\<lparr>table := (table s)[nat idx := new_entry env ref event tid num_frames frames]\<rparr>))"

text \<open>
  The growth step under the write lock. \<^verbatim>\<open>_table_cap\<close> takes the new capacity
  inside the argument of \<^verbatim>\<open>realloc\<close>, before \<^verbatim>\<open>realloc\<close> answers: when it fails, the
  capacity is raised over the old block.
\<close>

definition grow_table :: "'ev jvm \<Rightarrow> 'ev LivenessTracker \<Rightarrow> 'ev LivenessTracker" where
  "grow_table env s =
     (let newcap = min (signed_take_bit 31 (table_cap s * 2)) (table_max_cap s)
      in if table_cap s \<noteq> newcap
         then s\<lparr>table_cap := newcap,
                table := (if realloc_ok env
                          then take (nat newcap) (table s)
                               @ replicate (nat newcap - length (table s)) (raw_entry env)
                          else table s)\<rparr>
         else s)"

text \<open>
  \<^verbatim>\<open>track\<close>, from the label \<^verbatim>\<open>retry\<close> on. A full table is cleaned and grown once,
  then the code jumps back to \<^verbatim>\<open>retry\<close> with \<^verbatim>\<open>retried\<close> set. Every path that
  does not jump ends with \<^verbatim>\<open>delete[] frames\<close>.
\<close>

function track_retry ::
  "'ev jvm \<Rightarrow> bool \<Rightarrow> nat \<Rightarrow> 'ev \<Rightarrow> int \<Rightarrow> int \<Rightarrow> jvmtiFrameInfo list
   \<Rightarrow> 'ev LivenessTracker \<Rightarrow> memory_fault + 'ev LivenessTracker" where
  "track_retry env retried ref event tid num_frames frames s =
     (if \<not> try_lock_shared env retried then Inr s
      else
        (case claim_index s of
           (idx, s0) \<Rightarrow>
             (case (if idx < table_cap s0
                    then store_entry env ref event tid num_frames frames idx s0
                    else Inr s0) of
                Inl f \<Rightarrow> Inl f
              | Inr s1 \<Rightarrow>
                  if idx = table_cap s1 then
                    (if \<not> retried then
                       (let s2 = cleanup_table env s1 in
                          if table_cap s2 < table_max_cap s2
                          then track_retry env True ref event tid num_frames frames
                                 (grow_table env s2)
                          else Inr (s2\<lparr>released := released s2 @ [DeleteFrames frames]\<rparr>))
                     else Inr (s1\<lparr>released := released s1 @ [DeleteFrames frames]\<rparr>))
                  else Inr (s1\<lparr>released := released s1 @ [DeleteFrames frames]\<rparr>))))"
  by pat_completeness auto
termination
proof (relation "measure (\<lambda>(env, retried, ref, event, tid, num_frames, frames, s).
                            if retried then 0 else (1::nat))")
  show "wf (measure (\<lambda>(env, retried, ref, event, tid, num_frames, frames, s).
                       if retried then 0 else (1::nat)))"
    by simp
next
  fix env :: "'ev jvm" and retried :: bool and ref :: nat and event :: 'ev
    and tid num_frames :: int and frames :: "jvmtiFrameInfo list"
    and s s3 :: "'ev LivenessTracker"
  assume "\<not> retried"
  then show "((env, True, ref, event, tid, num_frames, frames, s3),
              (env, retried, ref, event, tid, num_frames, frames, s))
             \<in> measure (\<lambda>(env, retried, ref, event, tid, num_frames, frames, s).
                           if retried then 0 else (1::nat))"
    by simp
qed

declare track_retry.simps [simp del]

definition track ::
  "'ev jvm \<Rightarrow> 'ev \<Rightarrow> int \<Rightarrow> int \<Rightarrow> jvmtiFrameInfo list \<Rightarrow> 'ev LivenessTracker
   \<Rightarrow> memory_fault + 'ev LivenessTracker" where
  "track env event tid num_frames frames s =
     (if table_max_cap s = 0 then Inr s
      else (case new_weak_ref env of
              None \<Rightarrow> Inr s
            | Some ref \<Rightarrow> track_retry env False ref event tid num_frames frames s))"


section \<open>Specification vocabulary and example inputs\<close>

subsection \<open>Symbol tables\<close>

text \<open>
  The blobs a cache holds are the first \<open>count\<close> slots of its array. A blob contains
  an address when the address lies in its half-open range.
\<close>

definition live_blobs :: "'f CodeCache \<Rightarrow> CodeBlob list" where
  "live_blobs c = take (nat (count c)) (blobs c)"

definition contains_addr :: "CodeBlob \<Rightarrow> addr \<Rightarrow> bool" where
  "contains_addr b a = (blob_start b \<le> a \<and> a < blob_end b)"

text \<open>
  What the search loop has established when it stops: it either returned the name of
  a blob that contains the address, or it stopped at an index with every blob before
  it ending at or below the address and every blob from it on starting above.
\<close>

definition loop_post :: "CodeBlob list \<Rightarrow> nat \<Rightarrow> addr \<Rightarrow> NativeFunc option + int \<Rightarrow> bool" where
  "loop_post bs n a r =
     (case r of
        Inl nm \<Rightarrow> \<exists>i<n. contains_addr (bs ! i) a \<and> nm = blob_name (bs ! i)
      | Inr l \<Rightarrow> 0 \<le> l \<and> l \<le> int n \<and> (\<forall>i<nat l. blob_end (bs ! i) \<le> a)
                 \<and> (\<forall>i. nat l \<le> i \<and> i < n \<longrightarrow> a < blob_start (bs ! i)))"

text \<open>
  A well-formed cache keeps \<open>count\<close> within its array, has a name, and every blob
  it holds has a name and \<open>start \<le> end\<close>. It is sorted when the blobs it holds are in
  the order of \<^verbatim>\<open>CodeBlob::comparator\<close>, which is what \<^verbatim>\<open>qsort\<close> leaves behind. The
  comparator orders by start only: the ends of a sorted cache ascend as well exactly
  when no blob reaches beyond the end of a later one. The insertion point of an
  address counts the leading blobs that end at or below it.
\<close>

definition well_formed :: "'f CodeCache \<Rightarrow> bool" where
  "well_formed c =
     (0 \<le> count c \<and> count c \<le> int (length (blobs c)) \<and> cc_name c \<noteq> None \<and>
      (\<forall>b\<in>set (live_blobs c). blob_name b \<noteq> None \<and> blob_start b \<le> blob_end b))"

definition sorted_cache :: "'f CodeCache \<Rightarrow> bool" where
  "sorted_cache c = sorted_wrt (\<lambda>x y. comparator x y \<le> 0) (live_blobs c)"

definition ends_ascending :: "'f CodeCache \<Rightarrow> bool" where
  "ends_ascending c = sorted_wrt (\<lambda>x y. blob_end x \<le> blob_end y) (live_blobs c)"

text \<open>
  For one address: no blob sorted after a blob that contains the address ends at or
  below the address. This holds at every address that no blob contains, and at every
  address when the ends ascend.
\<close>

definition nothing_ends_behind :: "'f CodeCache \<Rightarrow> addr \<Rightarrow> bool" where
  "nothing_ends_behind c a =
     sorted_wrt (\<lambda>x y. contains_addr x a \<longrightarrow> \<not> blob_end y \<le> a) (live_blobs c)"

definition insertion_point :: "'f CodeCache \<Rightarrow> addr \<Rightarrow> nat" where
  "insertion_point c a = length (takeWhile (\<lambda>b. blob_end b \<le> a) (live_blobs c))"

text \<open>
  The name a lookup falls back to when no blob contains the address: the name of the
  blob before the insertion point if that blob has zero size or ends exactly at the
  address, else the name of the cache.
\<close>

definition fall_through_name :: "'f CodeCache \<Rightarrow> addr \<Rightarrow> NativeFunc option" where
  "fall_through_name c a =
     (if 0 < insertion_point c a \<and>
         (blob_start (live_blobs c ! (insertion_point c a - 1))
            = blob_end (live_blobs c ! (insertion_point c a - 1))
          \<or> blob_end (live_blobs c ! (insertion_point c a - 1)) = a)
      then blob_name (live_blobs c ! (insertion_point c a - 1))
      else cc_name c)"

definition dwarf_entries :: "'f CodeCache \<Rightarrow> 'f list" where
  "dwarf_entries c =
     take (nat (dwarf_table_length c)) (case dwarf_table c of None \<Rightarrow> [] | Some t \<Rightarrow> t)"

text \<open>
  Scenario S1 of the specification: a cache with the blobs \<open>foo\<close> at
  \<open>[0x1000, 0x1100)\<close> and \<open>bar\<close> at \<open>[0x1100, 0x1200)\<close>, sorted.
\<close>

definition two_blob_cache :: "string \<Rightarrow> int \<Rightarrow> unit CodeCache" where
  "two_blob_cache nm li =
     sort_cache (add (add (CodeCache_new nm li NO_MIN_ADDRESS NO_MAX_ADDRESS)
                        0x1000 0x100 ''foo'' False) 0x1100 0x100 ''bar'' False)"

text \<open>A sorted cache with a blob nested in an earlier, longer one.\<close>

definition nested_cache :: "unit CodeCache" where
  "nested_cache =
     sort_cache (add (add (add (CodeCache_new ''libnest.so'' 0 NO_MIN_ADDRESS NO_MAX_ADDRESS)
                             0x200 0x100 ''other'' False)
                        0x10 0x10 ''inner'' False)
                   0 0x100 ''outer'' False)"

text \<open>
  Scenario S2 of the specification: \<open>entry\<close> of zero size at \<open>0x2000\<close> and
  \<open>enclosing\<close> at \<open>[0x2000, 0x2100)\<close>, sorted; and the same cache with one more
  blob, \<open>later\<close> at \<open>[0x3000, 0x3100)\<close>.
\<close>

definition tie_cache :: "unit CodeCache" where
  "tie_cache =
     sort_cache (add (add (CodeCache_new ''libtie.so'' 0 NO_MIN_ADDRESS NO_MAX_ADDRESS)
                        0x2000 0 ''entry'' False) 0x2000 0x100 ''enclosing'' False)"

definition tie_cache3 :: "unit CodeCache" where
  "tie_cache3 =
     sort_cache (add (add (add (CodeCache_new ''libtie.so'' 0 NO_MIN_ADDRESS NO_MAX_ADDRESS)
                             0x2000 0 ''entry'' False)
                        0x2000 0x100 ''enclosing'' False)
                   0x3000 0x100 ''later'' False)"

text \<open>A cache with two blobs and three frame descriptors, and a store holding it twice.\<close>

definition donor_cache :: "nat CodeCache" where
  "donor_cache =
     (add (add (CodeCache_new ''libdonor.so'' 3 NO_MIN_ADDRESS NO_MAX_ADDRESS)
             0x1000 0x100 ''foo'' True) 0x1100 0x100 ''bar'' True)
       \<lparr>dwarf_table := Some [7, 8, 9], dwarf_table_length := 3\<rparr>"

definition two_cache_store :: "nat store" where
  "two_cache_store = [0 \<mapsto> donor_cache, 1 \<mapsto> donor_cache]"

subsection \<open>Varints\<close>

text \<open>
  The septets of a number, least significant first, every byte but the last with the
  continuation bit: the byte sequence that \<open>getVar\<close> reads back as the number.
\<close>

function var_bytes :: "nat \<Rightarrow> 8 word list" where
  "var_bytes n = (if n > 127 then of_nat (n mod 128 + 128) # var_bytes (n div 128) else [of_nat n])"
  by pat_completeness auto
termination
  by (relation "measure id") auto

declare var_bytes.simps [simp del]

text \<open>A \<^verbatim>\<open>Buffer\<close> on zeroed memory.\<close>

definition zero_buffer :: Buffer where
  "zero_buffer = Buffer_new (replicate 1020 0)"

subsection \<open>Contexts\<close>

text \<open>
  The validity predicate of a context record, and a well-formed table: \<open>max_pages\<close>
  page pointers, every allocated page of \<^verbatim>\<open>DD_CONTEXT_PAGE_SIZE\<close> records.
\<close>

definition context_valid :: "Context \<Rightarrow> bool" where
  "context_valid c = (spanId c XOR rootSpanId c = checksum c)"

definition contexts_wf :: "nat \<Rightarrow> Contexts \<Rightarrow> bool" where
  "contexts_wf shift cs =
     (0 \<le> max_pages cs \<and> length (pages cs) = nat (max_pages cs) \<and>
      (\<forall>pg\<in>set (pages cs). case pg of None \<Rightarrow> True | Some page \<Rightarrow> length page = DD_CONTEXT_PAGE_SIZE shift))"

text \<open>
  A table of two pages of four records (shift 2). The first page is allocated: its
  slot 1 holds a record whose checksum fits, its slot 2 one whose checksum does not.
  The second page is not allocated.
\<close>

definition one_page_contexts :: Contexts where
  "one_page_contexts =
     \<lparr>max_pages = 2,
      pages = [Some ((replicate 4 DD_EMPTY_CONTEXT)
                       [1 := \<lparr>spanId = 0xAA, rootSpanId = 0xBB, checksum = 0x11\<rparr>,
                        2 := \<lparr>spanId = 0xAA, rootSpanId = 0xBB, checksum = 0x12\<rparr>]),
               None]\<rparr>"

subsection \<open>Liveness tracker\<close>

text \<open>The invariant of the tracking table.\<close>

definition table_inv :: "'ev LivenessTracker \<Rightarrow> bool" where
  "table_inv s = (0 \<le> table_size s \<and> table_size s \<le> table_cap s \<and> table_cap s \<le> table_max_cap s)"


text \<open>
  The entries in use lie within the block: what every call that ends without a memory
  fault leaves behind, also after a \<^verbatim>\<open>realloc\<close> that failed.
\<close>

definition size_in_block :: "'ev LivenessTracker \<Rightarrow> bool" where
  "size_in_block s = (nat (table_size s) \<le> length (table s))"

text \<open>
  Example inputs: a tracker before \<^verbatim>\<open>initialize\<close>, a JVM of version 17 that reports
  its heap size, answers every lookup and grants the lock, and a tracker holding one
  entry whose referent is alive, one garbage collection after the last cleanup.
\<close>

definition blank_entry :: "unit TrackingEntry" where
  "blank_entry = \<lparr>te_ref = None, te_tid = 0, te_time = 0, te_alloc = (), te_age = 0,
                   te_frames_size = 0, te_frames = [], te_ctx = DD_EMPTY_CONTEXT\<rparr>"

definition fresh_tracker :: "unit LivenessTracker" where
  "fresh_tracker =
     \<lparr>initialized = False, stored_error = None, table_max_cap = 0, table_cap = 0,
      table_size = 0, table = [], gc_epoch = 0, last_gc_epoch = 0,
      record_heap_usage = False, used_after_last_gc = 0, released = []\<rparr>"

definition example_jvm :: "int \<Rightarrow> unit jvm" where
  "example_jvm heap =
     \<lparr>java_version = 17, heap_max_size = heap, runtime_max_memory = None,
      class_getName_found = True, new_weak_ref = Some 7, try_lock_shared = (\<lambda>retried. True),
      ticks = 1000, current_context = DD_EMPTY_CONTEXT, referent_collected = (\<lambda>r. False),
      realloc_ok = True, raw_entry = blank_entry, last_gc_usage_supported = True,
      heap_used = 0\<rparr>"

definition one_entry_tracker :: "unit LivenessTracker" where
  "one_entry_tracker =
     \<lparr>initialized = True, stored_error = None, table_max_cap = 2048, table_cap = 2048,
      table_size = 1,
      table = (replicate 2048 blank_entry)[0 := blank_entry\<lparr>te_ref := Some 7, te_tid := 42\<rparr>],
      gc_epoch = 1, last_gc_epoch = 0,
      record_heap_usage = False, used_after_last_gc = 0, released = []\<rparr>"

text \<open>
  A full table of two slots that may grow to four, one collection after the last
  cleanup: the referent of the first entry is alive, the one of the second was
  collected. The lock is granted on the first pass and refused after
  \<^verbatim>\<open>goto retry\<close>.
\<close>

definition full_tracker :: "unit LivenessTracker" where
  "full_tracker =
     \<lparr>initialized = True, stored_error = None, table_max_cap = 4, table_cap = 2,
      table_size = 2,
      table = [blank_entry\<lparr>te_ref := Some 1, te_tid := 41\<rparr>,
               blank_entry\<lparr>te_ref := Some 2, te_tid := 42\<rparr>],
      gc_epoch = 1, last_gc_epoch = 0,
      record_heap_usage = False, used_after_last_gc = 0, released = []\<rparr>"

definition retry_refused_jvm :: "unit jvm" where
  "retry_refused_jvm =
     (example_jvm (2 ^ 30))\<lparr>try_lock_shared := (\<lambda>retried. \<not> retried),
                            referent_collected := (\<lambda>r. r = 2)\<rparr>"

section \<open>Properties of the symbol table\<close>

subsection \<open>The search loop\<close>

lemma loop_exit: "\<not> low \<le> high \<Longrightarrow> binarySearch_loop bs a low high = Inr low"
  by (subst binarySearch_loop.simps) simp

lemma loop_right:
  "low \<le> high \<Longrightarrow> blob_end (bs ! nat ((low + high) div 2)) \<le> a \<Longrightarrow>
   binarySearch_loop bs a low high = binarySearch_loop bs a ((low + high) div 2 + 1) high"
  by (subst binarySearch_loop.simps) (simp add: Let_def)

lemma loop_left:
  "low \<le> high \<Longrightarrow> \<not> blob_end (bs ! nat ((low + high) div 2)) \<le> a \<Longrightarrow>
   a < blob_start (bs ! nat ((low + high) div 2)) \<Longrightarrow>
   binarySearch_loop bs a low high = binarySearch_loop bs a low ((low + high) div 2 - 1)"
  by (subst binarySearch_loop.simps) (simp add: Let_def)

lemma loop_hit:
  "low \<le> high \<Longrightarrow> \<not> blob_end (bs ! nat ((low + high) div 2)) \<le> a \<Longrightarrow>
   \<not> a < blob_start (bs ! nat ((low + high) div 2)) \<Longrightarrow>
   binarySearch_loop bs a low high = Inl (blob_name (bs ! nat ((low + high) div 2)))"
  by (subst binarySearch_loop.simps) (simp add: Let_def)

lemma loop_inv:
  assumes ms: "\<And>i j. i \<le> j \<Longrightarrow> j < n \<Longrightarrow> blob_start (bs ! i) \<le> blob_start (bs ! j)"
      and me: "\<And>i j. i \<le> j \<Longrightarrow> j < n \<Longrightarrow> blob_end (bs ! j) \<le> a \<Longrightarrow> blob_end (bs ! i) \<le> a"
  shows "0 \<le> low \<Longrightarrow> high < int n \<Longrightarrow> low \<le> high + 1 \<Longrightarrow>
         (\<forall>i<nat low. blob_end (bs ! i) \<le> a) \<Longrightarrow>
         (\<forall>i. nat (high + 1) \<le> i \<and> i < n \<longrightarrow> a < blob_start (bs ! i)) \<Longrightarrow>
         loop_post bs n a (binarySearch_loop bs a low high)"
proof (induction "nat (high - low + 1)" arbitrary: low high rule: less_induct)
  case less
  show ?case
  proof (cases "low \<le> high")
    case False
    with less.prems have "low = high + 1" by simp
    with False less.prems show ?thesis
      by (simp add: loop_exit loop_post_def)
  next
    case True
    define mid where "mid = (low + high) div 2"
    have mid: "low \<le> mid" "mid \<le> high" using True by (auto simp: mid_def)
    have midn: "nat mid < n" using mid less.prems by linarith
    show ?thesis
    proof (cases "blob_end (bs ! nat mid) \<le> a")
      case A: True
      have pre: "\<forall>i<nat (mid + 1). blob_end (bs ! i) \<le> a"
      proof (intro allI impI)
        fix i assume "i < nat (mid + 1)"
        then have "i \<le> nat mid" using mid less.prems by linarith
        from me[OF this midn A] show "blob_end (bs ! i) \<le> a" .
      qed
      have "loop_post bs n a (binarySearch_loop bs a (mid + 1) high)"
        using mid less.prems pre by (intro less.hyps) auto
      then show ?thesis
        using True A by (simp add: loop_right mid_def)
    next
      case B: False
      show ?thesis
      proof (cases "blob_start (bs ! nat mid) > a")
        case C: True
        have post: "\<forall>i. nat (mid - 1 + 1) \<le> i \<and> i < n \<longrightarrow> a < blob_start (bs ! i)"
        proof (intro allI impI)
          fix i assume h: "nat (mid - 1 + 1) \<le> i \<and> i < n"
          then have "nat mid \<le> i" "i < n" by auto
          from ms[OF this] C show "a < blob_start (bs ! i)" by simp
        qed
        have "loop_post bs n a (binarySearch_loop bs a low (mid - 1))"
          using mid less.prems post by (intro less.hyps) auto
        then show ?thesis
          using True B C by (simp add: loop_left mid_def)
      next
        case D: False
        have "contains_addr (bs ! nat mid) a"
          using B D by (auto simp: contains_addr_def not_le not_less)
        with midn have "loop_post bs n a (Inl (blob_name (bs ! nat mid)))"
          by (auto simp: loop_post_def)
        then show ?thesis
          using True B D by (simp add: loop_hit mid_def)
      qed
    qed
  qed
qed

lemma comparator_start: "comparator x y \<le> 0 \<Longrightarrow> blob_start x \<le> blob_start y"
  by (auto simp: comparator_def split: if_splits)

lemma live_nth: "i < nat (count c) \<Longrightarrow> nat (count c) \<le> length (blobs c) \<Longrightarrow> live_blobs c ! i = blobs c ! i"
  by (simp add: live_blobs_def)

lemma live_length: "nat (count c) \<le> length (blobs c) \<Longrightarrow> length (live_blobs c) = nat (count c)"
  by (simp add: live_blobs_def)

lemma loop_range:
  "0 \<le> low \<Longrightarrow> high < int n \<Longrightarrow> low \<le> high + 1 \<Longrightarrow>
   (case binarySearch_loop bs a low high of
      Inl nm \<Rightarrow> \<exists>i<n. nm = blob_name (bs ! i)
    | Inr l \<Rightarrow> 0 \<le> l \<and> l \<le> int n)"
proof (induction "nat (high - low + 1)" arbitrary: low high rule: less_induct)
  case less
  show ?case
  proof (cases "low \<le> high")
    case False
    with less.prems show ?thesis by (simp add: loop_exit)
  next
    case True
    define mid where "mid = (low + high) div 2"
    have mid: "low \<le> mid" "mid \<le> high" using True by (auto simp: mid_def)
    have midn: "nat mid < n" using mid less.prems by linarith
    show ?thesis
    proof (cases "blob_end (bs ! nat mid) \<le> a")
      case A: True
      have "case binarySearch_loop bs a (mid + 1) high of
              Inl nm \<Rightarrow> \<exists>i<n. nm = blob_name (bs ! i)
            | Inr l \<Rightarrow> 0 \<le> l \<and> l \<le> int n"
        using mid less.prems by (intro less.hyps) auto
      then show ?thesis using True A by (simp add: loop_right mid_def)
    next
      case B: False
      show ?thesis
      proof (cases "blob_start (bs ! nat mid) > a")
        case C: True
        have "case binarySearch_loop bs a low (mid - 1) of
                Inl nm \<Rightarrow> \<exists>i<n. nm = blob_name (bs ! i)
              | Inr l \<Rightarrow> 0 \<le> l \<and> l \<le> int n"
          using mid less.prems by (intro less.hyps) auto
        then show ?thesis using True B C by (simp add: loop_left mid_def)
      next
        case D: False
        from midn have "\<exists>i<n. blob_name (bs ! nat mid) = blob_name (bs ! i)" by blast
        then show ?thesis using True B D by (simp add: loop_hit mid_def)
      qed
    qed
  qed
qed

lemma binarySearch_not_null:
  assumes wf: "well_formed c"
  shows "binarySearch c a \<noteq> None"
proof -
  let ?n = "nat (count c)"
  let ?r = "binarySearch_loop (blobs c) a 0 (count c - 1)"
  from wf have len: "?n \<le> length (blobs c)" and c0: "0 \<le> count c"
    and nm: "cc_name c \<noteq> None"
    and bl: "\<And>b. b \<in> set (live_blobs c) \<Longrightarrow> blob_name b \<noteq> None"
    by (auto simp: well_formed_def)
  have mem: "blob_name (blobs c ! i) \<noteq> None" if "i < ?n" for i
    using that len live_nth[of i c] nth_mem[of i "live_blobs c"] bl by (simp add: live_length)
  have rng: "case ?r of Inl nm \<Rightarrow> \<exists>i<?n. nm = blob_name (blobs c ! i)
                       | Inr l \<Rightarrow> 0 \<le> l \<and> l \<le> int ?n"
    by (rule loop_range) (use c0 in auto)
  show ?thesis
  proof (cases ?r)
    case (Inl name)
    with rng mem show ?thesis by (auto simp: binarySearch_def)
  next
    case (Inr l)
    with rng have l: "0 \<le> l" "l \<le> int ?n" by auto
    have "blob_name (blobs c ! nat (l - 1)) \<noteq> None" if "0 < l"
      by (rule mem) (use that l in linarith)
    then show ?thesis using Inr nm by (auto simp: binarySearch_def)
  qed
qed

lemma search_loop_post:
  assumes wf: "well_formed c" and so: "sorted_cache c" and nb: "nothing_ends_behind c a"
  shows "loop_post (blobs c) (nat (count c)) a (binarySearch_loop (blobs c) a 0 (count c - 1))"
proof -
  let ?n = "nat (count c)"
  from wf have len: "?n \<le> length (blobs c)" and c0: "0 \<le> count c"
    and se: "\<And>b. b \<in> set (live_blobs c) \<Longrightarrow> blob_start b \<le> blob_end b"
    by (auto simp: well_formed_def)
  have ms: "blob_start (blobs c ! i) \<le> blob_start (blobs c ! j)" if "i \<le> j" "j < ?n" for i j
  proof (cases "i = j")
    case True then show ?thesis by simp
  next
    case False
    with that have "i < j" "j < length (live_blobs c)" by (auto simp: live_length[OF len])
    with so have "comparator (live_blobs c ! i) (live_blobs c ! j) \<le> 0"
      by (simp add: sorted_cache_def sorted_wrt_iff_nth_less)
    then show ?thesis using that len by (simp add: live_nth comparator_start)
  qed
  have me: "blob_end (blobs c ! i) \<le> a" if "i \<le> j" "j < ?n" "blob_end (blobs c ! j) \<le> a" for i j
  proof (cases "i = j")
    case True then show ?thesis using that by simp
  next
    case False
    with that have ij: "i < j" "j < length (live_blobs c)" by (auto simp: live_length[OF len])
    have li: "live_blobs c ! i = blobs c ! i" "live_blobs c ! j = blobs c ! j"
      using that len by (simp_all add: live_nth)
    have "blobs c ! j \<in> set (live_blobs c)" using ij li nth_mem[of j "live_blobs c"] by simp
    then have "blob_start (blobs c ! j) \<le> blob_end (blobs c ! j)" by (rule se)
    with ms[OF that(1,2)] that(3) have sa: "blob_start (blobs c ! i) \<le> a" by simp
    show ?thesis
    proof (rule ccontr)
      assume "\<not> blob_end (blobs c ! i) \<le> a"
      with sa have "contains_addr (live_blobs c ! i) a" by (simp add: contains_addr_def li)
      moreover from nb ij
      have "contains_addr (live_blobs c ! i) a \<longrightarrow> \<not> blob_end (live_blobs c ! j) \<le> a"
        by (simp add: nothing_ends_behind_def sorted_wrt_iff_nth_less)
      ultimately show False using that(3) li by simp
    qed
  qed
  show ?thesis
    by (rule loop_inv[OF ms me]) (use c0 in auto)
qed

lemma nothing_contains_nothing_ends_behind:
  "\<not> (\<exists>b\<in>set (live_blobs c). contains_addr b a) \<Longrightarrow> nothing_ends_behind c a"
  by (auto simp: nothing_ends_behind_def sorted_wrt_iff_nth_less)

lemma ends_ascending_nothing_ends_behind:
  "ends_ascending c \<Longrightarrow> nothing_ends_behind c a"
  unfolding ends_ascending_def nothing_ends_behind_def
  by (erule sorted_wrt_mono_rel[rotated]) (auto simp: contains_addr_def dest: leD)

lemma insertion_point_eq:
  assumes wf: "well_formed c"
      and l: "0 \<le> l" "l \<le> count c"
      and lo: "\<forall>i<nat l. blob_end (blobs c ! i) \<le> a"
      and hi: "\<forall>i. nat l \<le> i \<and> i < nat (count c) \<longrightarrow> a < blob_start (blobs c ! i)"
  shows "insertion_point c a = nat l"
proof -
  let ?n = "nat (count c)"
  from wf have len: "?n \<le> length (blobs c)"
    by (auto simp: well_formed_def)
  have ln: "nat l \<le> length (live_blobs c)" using l by (simp add: live_length[OF len])
  have a1: "\<forall>i. i < nat l \<longrightarrow> blob_end (live_blobs c ! i) \<le> a"
    using lo l len by (simp add: live_nth)
  have a2: "\<not> blob_end (live_blobs c ! nat l) \<le> a" if "nat l < length (live_blobs c)"
  proof -
    from that have lt: "nat l < ?n" by (simp add: live_length[OF len])
    then have "live_blobs c ! nat l \<in> set (live_blobs c)" using that by simp
    with wf have "blob_start (live_blobs c ! nat l) \<le> blob_end (live_blobs c ! nat l)"
      by (simp add: well_formed_def)
    moreover from hi lt have "a < blob_start (live_blobs c ! nat l)"
      using len by (simp add: live_nth)
    ultimately show ?thesis by simp
  qed
  have "takeWhile (\<lambda>b. blob_end b \<le> a) (live_blobs c) = take (nat l) (live_blobs c)"
    by (rule takeWhile_eq_take_P_nth) (use a1 a2 in auto)
  then show ?thesis using ln by (simp add: insertion_point_def)
qed

subsection \<open>What sort leaves behind\<close>

text \<open>
  The comparator is a total preorder, so the sort puts the blobs a cache holds into
  its order and keeps a well-formed cache well formed.
\<close>

lemma comparator_total: "comparator x y \<le> 0 \<or> comparator y x \<le> 0"
  by (auto simp: comparator_def)

lemma comparator_trans:
  "comparator x y \<le> 0 \<Longrightarrow> comparator y z \<le> 0 \<Longrightarrow> comparator x z \<le> 0"
  by (auto simp: comparator_def split: if_splits)

lemma set_insert_blob: "set (insert_blob x xs) = insert x (set xs)"
  by (induction xs) auto

lemma sorted_insert_blob:
  "sorted_wrt (\<lambda>x y. comparator x y \<le> 0) xs \<Longrightarrow>
   sorted_wrt (\<lambda>x y. comparator x y \<le> 0) (insert_blob x xs)"
proof (induction xs)
  case Nil
  then show ?case by simp
next
  case (Cons y ys)
  show ?case
  proof (cases "comparator x y \<le> 0")
    case True
    with Cons.prems show ?thesis by (auto intro: comparator_trans)
  next
    case False
    then have yx: "comparator y x \<le> 0" using comparator_total[of x y] by simp
    with Cons False show ?thesis by (auto simp: set_insert_blob)
  qed
qed

lemma sorted_qsort_blobs: "sorted_wrt (\<lambda>x y. comparator x y \<le> 0) (qsort_blobs xs)"
  by (induction xs) (simp_all add: sorted_insert_blob)

lemma length_insert_blob: "length (insert_blob x xs) = Suc (length xs)"
  by (induction xs) auto

lemma length_qsort_blobs: "length (qsort_blobs xs) = length xs"
  by (induction xs) (simp_all add: length_insert_blob)

lemma set_qsort_blobs: "set (qsort_blobs xs) = set xs"
  by (induction xs) (simp_all add: set_insert_blob)

lemma live_blobs_sort_cache:
  "nat (count c) \<le> length (blobs c) \<Longrightarrow> live_blobs (sort_cache c) = qsort_blobs (live_blobs c)"
  by (cases "count c = 0")
     (simp_all add: sort_cache_def live_blobs_def Let_def length_qsort_blobs)

lemma sort_cache_sorted:
  "nat (count c) \<le> length (blobs c) \<Longrightarrow> sorted_cache (sort_cache c)"
  by (simp add: sorted_cache_def live_blobs_sort_cache sorted_qsort_blobs)

lemma sort_cache_well_formed:
  "well_formed c \<Longrightarrow> well_formed (sort_cache c)"
proof -
  assume wf: "well_formed c"
  then have len: "nat (count c) \<le> length (blobs c)" by (auto simp: well_formed_def)
  have 1: "live_blobs (sort_cache c) = qsort_blobs (live_blobs c)"
    by (rule live_blobs_sort_cache[OF len])
  have 2: "count (sort_cache c) = count c" "length (blobs (sort_cache c)) = length (blobs c)"
          "cc_name (sort_cache c) = cc_name c"
    using len by (auto simp: sort_cache_def Let_def length_qsort_blobs)
  show ?thesis using wf by (simp add: well_formed_def 1 2 set_qsort_blobs)
qed

subsection \<open>Lookups\<close>

lemma lookup_rule_sorted:
  assumes wf: "well_formed c" and so: "sorted_cache c" and nb: "nothing_ends_behind c a"
  shows "(if \<exists>b\<in>set (live_blobs c). contains_addr b a
     then \<exists>b\<in>set (live_blobs c). contains_addr b a \<and> binarySearch c a = blob_name b
     else if 0 < insertion_point c a \<and>
             (blob_start (live_blobs c ! (insertion_point c a - 1))
                = blob_end (live_blobs c ! (insertion_point c a - 1))
              \<or> blob_end (live_blobs c ! (insertion_point c a - 1)) = a)
          then binarySearch c a = blob_name (live_blobs c ! (insertion_point c a - 1))
          else binarySearch c a = cc_name c)"
proof -
  let ?n = "nat (count c)"
  let ?r = "binarySearch_loop (blobs c) a 0 (count c - 1)"
  from wf have len: "?n \<le> length (blobs c)" and c0: "0 \<le> count c"
    and nm: "cc_name c \<noteq> None"
    and bl: "\<And>b. b \<in> set (live_blobs c) \<Longrightarrow> blob_name b \<noteq> None \<and> blob_start b \<le> blob_end b"
    by (auto simp: well_formed_def)
  have mem: "blobs c ! i \<in> set (live_blobs c)" if "i < ?n" for i
    using that len live_nth[of i c] nth_mem[of i "live_blobs c"] by (simp add: live_length)
  have post: "loop_post (blobs c) ?n a ?r"
    by (rule search_loop_post[OF wf so nb])
  show ?thesis
  proof (cases ?r)
    case (Inl name)
    with post obtain i where i: "i < ?n" "contains_addr (blobs c ! i) a" "name = blob_name (blobs c ! i)"
      by (auto simp: loop_post_def)
    have res: "binarySearch c a = blob_name (blobs c ! i)"
      using Inl i by (simp add: binarySearch_def)
    from mem[OF i(1)] i(2) have ex: "\<exists>b\<in>set (live_blobs c). contains_addr b a" by blast
    from mem[OF i(1)] bl res have "binarySearch c a \<noteq> None" by simp
    moreover have "\<exists>b\<in>set (live_blobs c). contains_addr b a \<and> binarySearch c a = blob_name b"
      using mem[OF i(1)] i(2) res by blast
    ultimately show ?thesis using ex by simp
  next
    case (Inr l)
    with post c0 have l: "0 \<le> l" "l \<le> count c"
      and lo: "\<forall>i<nat l. blob_end (blobs c ! i) \<le> a"
      and hi: "\<forall>i. nat l \<le> i \<and> i < ?n \<longrightarrow> a < blob_start (blobs c ! i)"
      by (auto simp: loop_post_def)
    have ip: "insertion_point c a = nat l"
      by (rule insertion_point_eq[OF wf l lo hi])
    have none: "\<not> (\<exists>b\<in>set (live_blobs c). contains_addr b a)"
    proof
      assume "\<exists>b\<in>set (live_blobs c). contains_addr b a"
      then obtain i where i: "i < ?n" "contains_addr (blobs c ! i) a"
        using len by (auto simp: in_set_conv_nth live_length live_nth)
      show False
      proof (cases "i < nat l")
        case True with lo i(2) show False by (auto simp: contains_addr_def)
      next
        case False
        then have "nat l \<le> i \<and> i < ?n" using i(1) by simp
        with hi have "a < blob_start (blobs c ! i)" by blast
        with i(2) show False by (auto simp: contains_addr_def dest: leD)
      qed
    qed
    have prev: "live_blobs c ! (nat l - 1) = blobs c ! nat (l - 1)" if "0 < l"
    proof -
      have "nat l - 1 = nat (l - 1)" using that by simp
      moreover have "nat (l - 1) < ?n" using that l by linarith
      ultimately show ?thesis using len by (simp add: live_nth)
    qed
    show ?thesis
    proof (cases "0 < l \<and> (blob_start (blobs c ! nat (l - 1)) = blob_end (blobs c ! nat (l - 1))
                         \<or> blob_end (blobs c ! nat (l - 1)) = a)")
      case True
      then have res: "binarySearch c a = blob_name (blobs c ! nat (l - 1))"
        using Inr by (simp add: binarySearch_def)
      have "nat (l - 1) < ?n" using True l by linarith
      from mem[OF this] bl res have "binarySearch c a \<noteq> None" by simp
      moreover have "0 < insertion_point c a \<and>
             (blob_start (live_blobs c ! (insertion_point c a - 1))
                = blob_end (live_blobs c ! (insertion_point c a - 1))
              \<or> blob_end (live_blobs c ! (insertion_point c a - 1)) = a)"
        using True ip prev by auto
      moreover have "blob_name (blobs c ! nat (l - 1)) = blob_name (live_blobs c ! (insertion_point c a - 1))"
        using True ip prev by simp
      ultimately show ?thesis using none res by auto
    next
      case False
      then have res: "binarySearch c a = cc_name c"
        using Inr by (auto simp: binarySearch_def)
      have "\<not> (0 < insertion_point c a \<and>
             (blob_start (live_blobs c ! (insertion_point c a - 1))
                = blob_end (live_blobs c ! (insertion_point c a - 1))
              \<or> blob_end (live_blobs c ! (insertion_point c a - 1)) = a))"
        using False ip prev by auto
      then show ?thesis using none res nm by auto
    qed
  qed
qed


text \<open>
  Claim C1, as amended. For every well-formed cache and every address
  \<^verbatim>\<open>binarySearch\<close> returns a name that is not null. In a sorted cache, when no blob
  contains the address, it returns the name of the blob before the insertion point if
  that blob has zero size or ends exactly at the address, and the cache's own name
  otherwise. In a sorted cache, when some blob contains the address and no blob
  sorted after a blob that contains it ends at or below it, it returns the name of a
  blob that contains the address.
\<close>

theorem binarySearch_sorted:
  assumes "well_formed c"
  shows "binarySearch c a \<noteq> None \<and>
         (sorted_cache c \<and> \<not> (\<exists>b\<in>set (live_blobs c). contains_addr b a)
            \<longrightarrow> binarySearch c a = fall_through_name c a) \<and>
         (sorted_cache c \<and> nothing_ends_behind c a \<and> (\<exists>b\<in>set (live_blobs c). contains_addr b a)
            \<longrightarrow> (\<exists>b\<in>set (live_blobs c). contains_addr b a \<and> binarySearch c a = blob_name b))"
proof (intro conjI impI)
  show "binarySearch c a \<noteq> None" by (rule binarySearch_not_null[OF assms])
next
  assume h: "sorted_cache c \<and> \<not> (\<exists>b\<in>set (live_blobs c). contains_addr b a)"
  then have nb: "nothing_ends_behind c a" by (simp add: nothing_contains_nothing_ends_behind)
  from lookup_rule_sorted[OF assms _ nb] h
  show "binarySearch c a = fall_through_name c a"
    by (auto simp: fall_through_name_def)
next
  assume h: "sorted_cache c \<and> nothing_ends_behind c a \<and> (\<exists>b\<in>set (live_blobs c). contains_addr b a)"
  with lookup_rule_sorted[OF assms, of a]
  show "\<exists>b\<in>set (live_blobs c). contains_addr b a \<and> binarySearch c a = blob_name b"
    by auto
qed

theorem binarySearch_sorted_witness:
  "well_formed tie_cache \<and> sorted_cache tie_cache \<and>
   \<not> (\<exists>b\<in>set (live_blobs tie_cache). contains_addr b 0x2100) \<and>
   binarySearch tie_cache 0x2100 \<noteq> None \<and>
   map_option nf_name (binarySearch tie_cache 0x2100) = Some ''entry'' \<and>
   well_formed (two_blob_cache ''libfoo.so'' 0) \<and> sorted_cache (two_blob_cache ''libfoo.so'' 0) \<and>
   nothing_ends_behind (two_blob_cache ''libfoo.so'' 0) 0x10ff \<and>
   (\<exists>b\<in>set (live_blobs (two_blob_cache ''libfoo.so'' 0)).
      contains_addr b 0x10ff \<and> binarySearch (two_blob_cache ''libfoo.so'' 0) 0x10ff = blob_name b)"
proof -
  let ?c = "two_blob_cache ''libfoo.so'' 0"
  have a: "well_formed tie_cache" by code_simp
  have b: "sorted_cache tie_cache" by code_simp
  have c: "\<not> (\<exists>b\<in>set (live_blobs tie_cache). contains_addr b 0x2100)" by code_simp
  have d: "map_option nf_name (fall_through_name tie_cache 0x2100) = Some ''entry''" by code_simp
  note r = binarySearch_sorted[OF a, of "0x2100"]
  from r have e: "binarySearch tie_cache 0x2100 \<noteq> None" by (rule conjunct1)
  from r b c have "binarySearch tie_cache 0x2100 = fall_through_name tie_cache 0x2100" by blast
  with d have f: "map_option nf_name (binarySearch tie_cache 0x2100) = Some ''entry''" by simp
  have g: "well_formed ?c" by code_simp
  have h: "sorted_cache ?c" by code_simp
  have i: "nothing_ends_behind ?c 0x10ff" by code_simp
  have j: "\<exists>b\<in>set (live_blobs ?c). contains_addr b 0x10ff" by code_simp
  from binarySearch_sorted[OF g, of "0x10ff"] h i j
  have k: "\<exists>b\<in>set (live_blobs ?c). contains_addr b 0x10ff \<and> binarySearch ?c 0x10ff = blob_name b"
    by blast
  from a b c e f g h i k show ?thesis by blast
qed

text \<open>
  The claim as stated, for every sorted cache, fails on nested blobs. In the sorted
  cache \<open>nested_cache\<close> the blob \<open>outer\<close> spans \<open>[0, 0x100)\<close> and contains
  \<open>0x50\<close>, but the search probes \<open>inner\<close>, which ends below the address, moves
  right and returns the cache's own name.
\<close>

theorem binarySearch_nested_counterexample:
  "well_formed nested_cache \<and> sorted_cache nested_cache \<and>
   contains_addr (live_blobs nested_cache ! 0) 0x50 \<and>
   map_option nf_name (blob_name (live_blobs nested_cache ! 0)) = Some ''outer'' \<and>
   binarySearch nested_cache 0x50 = cc_name nested_cache \<and>
   binarySearch nested_cache 0x50 \<noteq> blob_name (live_blobs nested_cache ! 0)"
  by code_simp

text \<open>
  A blob of zero size sorted after a longer blob with the same start has the same
  effect. With the two blobs of scenario S2 the first probe hits \<open>enclosing\<close>; with
  one more blob behind them the first probe is \<open>entry\<close>, and the lookup of
  \<open>0x2050\<close>, inside \<open>enclosing\<close>, returns \<open>entry\<close>.
\<close>

lemma binarySearch_same_start:
  "map_option nf_name (binarySearch tie_cache 0x2000) = Some ''enclosing'' \<and>
   sorted_cache tie_cache3 \<and> contains_addr (live_blobs tie_cache3 ! 0) 0x2050 \<and>
   map_option nf_name (blob_name (live_blobs tie_cache3 ! 0)) = Some ''enclosing'' \<and>
   \<not> nothing_ends_behind tie_cache3 0x2050 \<and>
   map_option nf_name (binarySearch tie_cache3 0x2050) = Some ''entry''"
  by code_simp

text \<open>
  Claim C6, as amended. In the cache of scenario S1, whatever its name and library
  index, the blobs held after \<^verbatim>\<open>sort\<close> are \<open>foo\<close> and \<open>bar\<close>; the lookup of
  \<open>0x10ff\<close> returns \<open>foo\<close>, the lookup of \<open>0x1100\<close> returns \<open>bar\<close>, and the
  lookup of \<open>0x1200\<close>, the end of \<open>bar\<close>, returns \<open>bar\<close> as well.
\<close>

theorem binarySearch_two_blobs:
  "map (\<lambda>b. (blob_start b, blob_end b, map_option nf_name (blob_name b)))
       (live_blobs (two_blob_cache nm li))
     = [(0x1000, 0x1100, Some ''foo''), (0x1100, 0x1200, Some ''bar'')] \<and>
   binarySearch (two_blob_cache nm li) 0x10ff = Some (NativeFunc_create ''foo'' li) \<and>
   binarySearch (two_blob_cache nm li) 0x1100 = Some (NativeFunc_create ''bar'' li) \<and>
   binarySearch (two_blob_cache nm li) 0x1200 = Some (NativeFunc_create ''bar'' li)"
  by code_simp

text \<open>
  The claim as stated has the lookup of \<open>0x1200\<close> return the cache's own name. It
  returns \<open>bar\<close>, by the rule for an address equal to the end of the preceding blob.
\<close>

theorem binarySearch_end_address_counterexample:
  "map_option nf_name (binarySearch (two_blob_cache ''libfoo.so'' 0) 0x1200) = Some ''bar'' \<and>
   map_option nf_name (cc_name (two_blob_cache ''libfoo.so'' 0)) = Some ''libfoo.so'' \<and>
   binarySearch (two_blob_cache ''libfoo.so'' 0) 0x1200 \<noteq> cc_name (two_blob_cache ''libfoo.so'' 0)"
  by code_simp

text \<open>
  The copy constructor keeps the count, the blobs and the dwarf entries of the source.
\<close>

lemma copy_ctor_copies:
  assumes "nat (count other) \<le> length (blobs other)"
  shows "count (CodeCache_copy junk other) = count other \<and>
         live_blobs (CodeCache_copy junk other) = live_blobs other \<and>
         dwarf_table_length (CodeCache_copy junk other) = dwarf_table_length other \<and>
         dwarf_entries (CodeCache_copy junk other) = dwarf_entries other"
  using assms by (simp add: CodeCache_copy_def live_blobs_def dwarf_entries_def)

text \<open>
  Copy assignment from a different object stops at its first statement whenever the
  target has a name, which every constructed cache has.
\<close>

lemma CodeCache_assign_invalid_free:
  assumes "other_p \<noteq> this" and "h this = Some self" and "h other_p = Some other"
      and "cc_name self \<noteq> None"
  shows "CodeCache_assign h this other_p = Inl InvalidFree"
  using assms by (auto simp: CodeCache_assign_def delete_name_def)

lemma CodeCache_new_named: "cc_name (CodeCache_new name li mn mx) \<noteq> None"
  by (simp add: CodeCache_new_def)

lemma CodeCache_copy_named: "cc_name (CodeCache_copy junk other) \<noteq> None"
  by (simp add: CodeCache_copy_def)

text \<open>
  Claim C10. Copy assignment from a different object should leave the target with no
  blobs and no dwarf table, where the copy constructor copies both. The copy
  constructor does (count 2, the blobs \<open>foo\<close> and \<open>bar\<close>, the three frame
  descriptors). The assignment does not get there: in a store holding the cache at
  the addresses 0 and 1, assigning the cache at 0 to the one at 1 ends in an invalid
  free at \<^verbatim>\<open>delete _name\<close>, before any member is reset.
\<close>

theorem copy_assign_invalid_free:
  "CodeCache_assign two_cache_store 1 0 = Inl InvalidFree \<and>
   count (CodeCache_copy False donor_cache) = 2 \<and>
   map (\<lambda>b. map_option nf_name (blob_name b)) (live_blobs (CodeCache_copy False donor_cache))
     = [Some ''foo'', Some ''bar''] \<and>
   dwarf_entries (CodeCache_copy False donor_cache) = [7, 8, 9]"
proof -
  have a: "two_cache_store 1 = Some donor_cache" "two_cache_store 0 = Some donor_cache"
    by (simp_all add: two_cache_store_def)
  have b: "cc_name donor_cache \<noteq> None" by code_simp
  have c: "CodeCache_assign two_cache_store 1 0 = Inl InvalidFree"
    using a b by (auto simp: CodeCache_assign_def delete_name_def)
  have d: "count (CodeCache_copy False donor_cache) = 2" by code_simp
  have e: "map (\<lambda>b. map_option nf_name (blob_name b)) (live_blobs (CodeCache_copy False donor_cache))
     = [Some ''foo'', Some ''bar'']" by code_simp
  have f: "dwarf_entries (CodeCache_copy False donor_cache) = [7, 8, 9]" by code_simp
  from c d e f show ?thesis by blast
qed

section \<open>Properties of the varint encoders\<close>

lemma byte_low7: "unat ((x :: 8 word) AND 0x7f) = unat x mod 128"
proof -
  have "(0x7f :: 8 word) = mask 7" by (simp add: mask_eq_exp_minus_1)
  then have "x AND 0x7f = take_bit 7 x" by (simp add: take_bit_eq_mask)
  then show ?thesis by (simp add: take_bit_eq_mod unat_mod)
qed

lemma odd_div128: "n < 256 \<Longrightarrow> (\<not> odd ((n::nat) div 128)) = (n < 128)"
proof (cases "n < 128")
  case True
  then show ?thesis by simp
next
  case False
  assume "n < 256"
  with False have "n div 128 = 1" by (intro div_nat_eqI) simp_all
  with False show ?thesis by simp
qed

lemma byte_cont: "((x :: 8 word) AND 0x80 = 0) = (unat x < 128)"
proof -
  have e: "(0x80 :: 8 word) = 2 ^ 7" by simp
  have "(x AND 2 ^ 7 = 0) = (\<not> bit x 7)" by (rule and_exp_eq_0_iff_not_bit)
  also have "bit x 7 = bit (unat x) 7" by (simp only: bit_unsigned_iff) simp
  also have "\<dots> = odd (unat x div 128)" using bit_iff_odd[of "unat x" 7] by simp
  also have "(\<not> odd (unat x div 128)) = (unat x < 128)"
  proof -
    have "unat x < 256" using unsigned_less[of x] by simp
    then show ?thesis by (rule odd_div128)
  qed
  finally show ?thesis by (simp only: e)
qed

lemma bit128: "bit (128::nat) k = (k = 7)"
  using bit_exp_iff[of 7 k, where ?'a=nat] by simp

lemma or_cont_nat: "take_bit 8 (n::nat) OR 128 = n mod 128 + 128"
proof -
  have "take_bit 8 n OR 128 = take_bit 7 n OR 128"
    by (rule bit_eqI) (auto simp: bit_or_iff bit_take_bit_iff bit128)
  also have "\<dots> = take_bit 7 n + 128"
    by (rule disjunctive_add[symmetric]) (simp add: bit_take_bit_iff bit128)
  finally show ?thesis by (simp add: take_bit_eq_mod)
qed

lemma or_cont: "unat ((ucast (w :: 'a::len word) :: 8 word) OR 0x80) = unat w mod 128 + 128"
proof -
  have "unat ((ucast w :: 8 word) OR 0x80) = take_bit 8 (unat w) OR 128"
    by (simp add: unsigned_or_eq unsigned_ucast_eq)
  then show ?thesis by (simp only: or_cont_nat)
qed

lemma cont_byte: "(ucast (w :: 'a::len word) :: 8 word) OR 0x80 = of_nat (unat w mod 128 + 128)"
proof -
  have "(ucast w :: 8 word) OR 0x80 = of_nat (unat ((ucast w :: 8 word) OR 0x80))" by simp
  then show ?thesis by (simp only: or_cont)
qed

lemma unat_byte: "n < 256 \<Longrightarrow> unat (of_nat n :: 8 word) = n"
  by (simp add: unat_of_nat)

lemma getVar_var_bytes: "getVar (var_bytes n @ rest) = Some (n, rest)"
proof (induction n rule: var_bytes.induct)
  case (1 n)
  show ?case
  proof (cases "n > 127")
    case True
    let ?x = "of_nat (n mod 128 + 128) :: 8 word"
    have ux: "unat ?x = n mod 128 + 128" by (rule unat_byte) simp
    have c: "?x AND 0x80 \<noteq> 0" by (simp only: byte_cont ux)
    have l: "unat (?x AND 0x7f) = n mod 128" by (simp only: byte_low7 ux) simp
    have vb: "var_bytes n = ?x # var_bytes (n div 128)"
      using True by (subst var_bytes.simps) simp
    from 1[OF True] c l show ?thesis by (simp only: vb append_Cons getVar.simps) simp
  next
    case False
    let ?x = "of_nat n :: 8 word"
    have ux: "unat ?x = n" using False by (intro unat_byte) simp
    have c: "?x AND 0x80 = 0" using False by (simp only: byte_cont ux)
    have vb: "var_bytes n = [?x]"
      using False by (subst var_bytes.simps) simp
    from c ux show ?thesis by (simp only: vb append_Cons append_Nil getVar.simps) simp
  qed
qed

lemma putVar32_bytes: "putVar32 b v = foldl put8 b (var_bytes (unat v))"
proof (induction b v rule: putVar32.induct)
  case (1 b v)
  show ?case
  proof (cases "v > 0x7f")
    case True
    then have n: "unat v > 127" by (simp add: word_less_nat_alt)
    have vb: "var_bytes (unat v) = (ucast v OR 0x80) # var_bytes (unat (drop_bit 7 v))"
      using n by (subst var_bytes.simps) (simp add: cont_byte drop_bit_eq_div unat_div)
    have "putVar32 b v = putVar32 (put8 b (ucast v OR 0x80)) (drop_bit 7 v)"
      using True by (subst putVar32.simps) simp
    with 1[OF True] show ?thesis by (simp add: vb)
  next
    case False
    then have n: "\<not> unat v > 127" by (simp add: word_less_nat_alt)
    have vb: "var_bytes (unat v) = [ucast v]"
      using n by (subst var_bytes.simps) simp
    have "putVar32 b v = put8 b (ucast v)"
      using False by (subst putVar32.simps) simp
    then show ?thesis by (simp add: vb)
  qed
qed

lemma foldl_put8_offset: "offset (foldl put8 b xs) = offset b + length xs"
  by (induction xs arbitrary: b) (simp_all add: put8_def)

lemma foldl_put8_length: "length (data (foldl put8 b xs)) = length (data b)"
  by (induction xs arbitrary: b) (simp_all add: put8_def)

lemma foldl_put8_data:
  "offset b + length xs \<le> length (data b) \<Longrightarrow>
   drop (offset b) (data (foldl put8 b xs)) = xs @ drop (offset b + length xs) (data b)"
proof (induction xs arbitrary: b)
  case Nil
  then show ?case by simp
next
  case (Cons x xs)
  let ?b = "put8 b x"
  have o: "offset ?b = offset b + 1" and l: "length (data ?b) = length (data b)"
    by (simp_all add: put8_def)
  have lt: "offset b < length (data b)" using Cons.prems by simp
  have room: "offset ?b + length xs \<le> length (data ?b)" using Cons.prems by (simp add: o l)
  have ih: "drop (offset b + 1) (data (foldl put8 ?b xs)) = xs @ drop (offset b + 1 + length xs) (data ?b)"
    using Cons.IH[OF room] by (simp add: o)
  have keep: "data (foldl put8 ?b xs) ! offset b = x"
  proof -
    have "take (offset ?b) (data (foldl put8 ?b xs)) = take (offset ?b) (data ?b)" for xs
    proof (induction xs arbitrary: b x rule: rev_induct)
      case Nil
      then show ?case by simp
    next
      case (snoc y ys)
      have "take (offset (put8 b x)) (data (put8 (foldl put8 (put8 b x) ys) y))
            = take (offset (put8 b x)) (data (foldl put8 (put8 b x) ys))"
        by (simp add: put8_def[of "foldl put8 (put8 b x) ys"] foldl_put8_offset)
      with snoc show ?case by simp
    qed
    then have "take (offset b + 1) (data (foldl put8 ?b xs)) = take (offset b + 1) (data ?b)"
      by (simp add: o)
    then have "take (offset b + 1) (data (foldl put8 ?b xs)) ! offset b = take (offset b + 1) (data ?b) ! offset b"
      by simp
    then have "data (foldl put8 ?b xs) ! offset b = data ?b ! offset b" by simp
    then show ?thesis using lt by (simp add: put8_def)
  qed
  have len: "offset b < length (data (foldl put8 ?b xs))" using lt by (simp add: foldl_put8_length l)
  have "drop (offset b) (data (foldl put8 ?b xs))
        = data (foldl put8 ?b xs) ! offset b # drop (Suc (offset b)) (data (foldl put8 ?b xs))"
    using len by (simp add: Cons_nth_drop_Suc)
  with keep ih show ?case by (simp add: put8_def[of b x])
qed

lemma written_foldl_put8:
  "offset b + length xs \<le> length (data b) \<Longrightarrow> written b (foldl put8 b xs) = xs"
  by (simp add: written_def foldl_put8_offset foldl_put8_data)

lemma var_bytes_length: "n < 128 ^ k \<Longrightarrow> 0 < k \<Longrightarrow> length (var_bytes n) \<le> k"
proof (induction k arbitrary: n)
  case 0
  then show ?case by simp
next
  case (Suc k)
  show ?case
  proof (cases "n > 127")
    case False
    then show ?thesis by (subst var_bytes.simps) simp
  next
    case True
    then have k: "0 < k" using Suc.prems by (cases k) auto
    have "n div 128 < 128 ^ k" using Suc.prems by (simp add: less_mult_imp_div_less mult.commute)
    from Suc.IH[OF this k] True show ?thesis by (subst var_bytes.simps) simp
  qed
qed

lemma putVar32_decodes:
  assumes "offset b + 5 \<le> length (data b)"
  shows "getVar (written b (putVar32 b v)) = Some (unat v, [])"
proof -
  have "unat v < 2 ^ 32" using unsigned_less[of v] by simp
  then have "unat v < 128 ^ 5" by simp
  then have "length (var_bytes (unat v)) \<le> 5" by (rule var_bytes_length) simp
  with assms have "written b (putVar32 b v) = var_bytes (unat v)"
    by (simp add: putVar32_bytes written_foldl_put8)
  then show ?thesis using getVar_var_bytes[of "unat v" "[]"] by simp
qed

lemma putVar64_tail_bytes: "putVar64_tail b v = foldl put8 b (var_bytes (unat v))"
proof (induction b v rule: putVar64_tail.induct)
  case (1 b v)
  show ?case
  proof (cases "v > 0x7f")
    case True
    then have n: "unat v > 127" by (simp add: word_less_nat_alt)
    have vb: "var_bytes (unat v) = (ucast v OR 0x80) # var_bytes (unat (drop_bit 7 v))"
      using n by (subst var_bytes.simps) (simp add: cont_byte drop_bit_eq_div unat_div)
    have "putVar64_tail b v = putVar64_tail (put8 b (ucast v OR 0x80)) (drop_bit 7 v)"
      using True by (subst putVar64_tail.simps) simp
    with 1[OF True] show ?thesis by (simp add: vb)
  next
    case False
    then have n: "\<not> unat v > 127" by (simp add: word_less_nat_alt)
    have vb: "var_bytes (unat v) = [ucast v]"
      using n by (subst var_bytes.simps) simp
    have "putVar64_tail b v = put8 b (ucast v)"
      using False by (subst putVar64_tail.simps) simp
    then show ?thesis by (simp add: vb)
  qed
qed

lemma var_bytes_cont:
  "127 < unat (v :: 64 word) \<Longrightarrow>
   var_bytes (unat v) = (ucast v OR 0x80) # var_bytes (unat (drop_bit 7 v))"
  by (subst var_bytes.simps) (simp add: cont_byte drop_bit_eq_div unat_div)

lemma unat_drop7: "unat (drop_bit 7 (v :: 64 word)) = unat v div 128"
  by (simp add: drop_bit_eq_div unat_div)

lemma var_bytes_three:
  assumes "0x1fffff < (v :: 64 word)"
  shows "var_bytes (unat v) =
           [ucast v OR 0x80, ucast (drop_bit 7 v) OR 0x80, ucast (drop_bit 7 (drop_bit 7 v)) OR 0x80]
           @ var_bytes (unat (drop_bit 7 (drop_bit 7 (drop_bit 7 v))))"
proof -
  from assms have n: "2097151 < unat v" by (simp add: word_less_nat_alt)
  then have a: "127 < unat v" by simp
  from n have b: "127 < unat (drop_bit 7 v)" by (simp add: unat_drop7)
  from n have "127 < unat v div 128 div 128" by simp
  then have c: "127 < unat (drop_bit 7 (drop_bit 7 v))" by (simp only: unat_drop7)
  show ?thesis
    by (simp only: var_bytes_cont[OF a] var_bytes_cont[OF b] var_bytes_cont[OF c] append_Cons append_Nil)
qed

lemma putVar64_unrolled_bytes:
  "0 \<le> iter \<Longrightarrow> iter \<le> 2 \<Longrightarrow> unat v < 2 ^ (21 * nat (3 - iter)) \<Longrightarrow>
   (\<exists>b' v'. putVar64_unrolled b v iter = Inl (b', v') \<and>
             putVar64_tail b' v' = foldl put8 b (var_bytes (unat v)))"
proof (induction b v iter rule: putVar64_unrolled.induct)
  case (1 b v iter)
  show ?case
  proof (cases "v > 0x1fffff")
    case False
    then have "putVar64_unrolled b v iter = Inl (b, v)"
      by (subst putVar64_unrolled.simps) simp
    then show ?thesis by (simp add: putVar64_tail_bytes)
  next
    case True
    define b1 where "b1 = put8 b (ucast v OR 0x80)"
    define v1 where "v1 = drop_bit 7 v"
    define b2 where "b2 = put8 b1 (ucast v1 OR 0x80)"
    define v2 where "v2 = drop_bit 7 v1"
    define b3 where "b3 = put8 b2 (ucast v2 OR 0x80)"
    define v3 where "v3 = drop_bit 7 v2"
    from True have n: "2097151 < unat v" by (simp add: word_less_nat_alt)
    have it: "iter \<le> 1"
    proof (rule ccontr)
      assume "\<not> iter \<le> 1"
      with "1.prems" have "iter = 2" by simp
      with "1.prems" n show False by simp
    qed
    then have ne: "iter + 1 \<noteq> 3" by simp
    have step: "putVar64_unrolled b v iter = putVar64_unrolled b3 v3 (iter + 1)"
      using True ne
      by (subst putVar64_unrolled.simps) (simp add: Let_def b1_def v1_def b2_def v2_def b3_def v3_def)
    have "unat v3 = unat v div 128 div 128 div 128"
      by (simp only: v3_def v2_def v1_def unat_drop7)
    then have u3: "unat v3 = unat v div 2 ^ 21"
      by (simp add: div_mult2_eq[symmetric])
    have e: "nat (3 - iter) = Suc (nat (3 - (iter + 1)))" using it "1.prems" by simp
    have "unat v < 2 ^ 21 * 2 ^ (21 * nat (3 - (iter + 1)))"
      using "1.prems"(3) by (simp only: e mult_Suc_right power_add)
    then have bound: "unat v3 < 2 ^ (21 * nat (3 - (iter + 1)))"
      by (simp only: u3 less_mult_imp_div_less mult.commute)
    have "\<exists>b' v'. putVar64_unrolled b3 v3 (iter + 1) = Inl (b', v') \<and>
             putVar64_tail b' v' = foldl put8 b3 (var_bytes (unat v3))"
      using "1.prems" it bound
      by (intro "1.IH"[OF True b1_def v1_def b2_def v2_def b3_def v3_def ne]) simp_all
    moreover have "foldl put8 b (var_bytes (unat v)) = foldl put8 b3 (var_bytes (unat v3))"
      by (simp add: var_bytes_three[OF True] b1_def v1_def b2_def v2_def b3_def v3_def)
    ultimately show ?thesis by (simp add: step)
  qed
qed

lemma putVar64_bytes:
  assumes "v < 2 ^ 63"
  shows "putVar64 b v = foldl put8 b (var_bytes (unat v))"
proof -
  from assms have "unat v < 2 ^ 63" by (simp add: word_less_nat_alt)
  then have "unat v < 2 ^ (21 * nat (3 - 0))" by simp
  from putVar64_unrolled_bytes[OF _ _ this, of b]
  obtain b' v' where "putVar64_unrolled b v 0 = Inl (b', v')"
    and "putVar64_tail b' v' = foldl put8 b (var_bytes (unat v))" by auto
  then show ?thesis by (simp add: putVar64_def)
qed

lemma putVar64_decodes:
  assumes "v < 2 ^ 63" and "offset b + 9 \<le> length (data b)"
  shows "getVar (written b (putVar64 b v)) = Some (unat v, [])"
proof -
  from assms have "unat v < 2 ^ 63" by (simp add: word_less_nat_alt)
  then have "unat v < 128 ^ 9" by simp
  then have "length (var_bytes (unat v)) \<le> 9" by (rule var_bytes_length) simp
  with assms have "written b (putVar64 b v) = var_bytes (unat v)"
    by (simp add: putVar64_bytes written_foldl_put8)
  then show ?thesis using getVar_var_bytes[of "unat v" "[]"] by simp
qed

lemma cont_set: "(ucast (w :: 64 word) OR (0x80 :: 8 word)) AND 0x80 \<noteq> 0"
  by (simp only: byte_cont or_cont)

lemma getVar_all_cont: "\<forall>x\<in>set xs. x AND 0x80 \<noteq> 0 \<Longrightarrow> getVar xs = None"
  by (induction xs) simp_all

lemma unrolled_round:
  assumes "0x1fffff < v"
  shows "putVar64_unrolled b v iter =
           (if iter + 1 = 3
            then Inr (foldl put8 b [ucast v OR 0x80, ucast (drop_bit 7 v) OR 0x80,
                                    ucast (drop_bit 14 v) OR 0x80])
            else putVar64_unrolled
                   (foldl put8 b [ucast v OR 0x80, ucast (drop_bit 7 v) OR 0x80,
                                  ucast (drop_bit 14 v) OR 0x80])
                   (drop_bit 21 v) (iter + 1))"
  using assms by (subst putVar64_unrolled.simps) (simp add: Let_def)

lemma putVar64_nine:
  assumes "2 ^ 63 \<le> (v :: 64 word)"
  shows "putVar64 b v = foldl put8 b
           [ucast v OR 0x80, ucast (drop_bit 7 v) OR 0x80, ucast (drop_bit 14 v) OR 0x80,
            ucast (drop_bit 21 v) OR 0x80, ucast (drop_bit 28 v) OR 0x80, ucast (drop_bit 35 v) OR 0x80,
            ucast (drop_bit 42 v) OR 0x80, ucast (drop_bit 49 v) OR 0x80, ucast (drop_bit 56 v) OR 0x80]"
proof -
  from assms have n: "2 ^ 63 \<le> unat v" by (simp add: word_le_nat_alt)
  have a: "0x1fffff < v" using n by (simp add: word_less_nat_alt)
  have "2 ^ 63 div 2 ^ 21 \<le> unat v div 2 ^ 21" using n by (rule div_le_mono)
  then have "0x1fffff < unat (drop_bit 21 v)" by (simp add: drop_bit_eq_div unat_div)
  then have b: "0x1fffff < drop_bit 21 v" by (simp add: word_less_nat_alt)
  have "2 ^ 63 div 2 ^ 42 \<le> unat v div 2 ^ 42" using n by (rule div_le_mono)
  then have "0x1fffff < unat (drop_bit 42 v)" by (simp add: drop_bit_eq_div unat_div)
  then have c: "0x1fffff < drop_bit 42 v" by (simp add: word_less_nat_alt)
  show ?thesis
    by (simp add: putVar64_def unrolled_round[OF a] unrolled_round[OF b] unrolled_round[OF c])
qed

lemma putVar64_large_undecodable:
  assumes "2 ^ 63 \<le> (v :: 64 word)" and "offset b + 9 \<le> length (data b)"
  shows "length (written b (putVar64 b v)) = 9 \<and> getVar (written b (putVar64 b v)) = None"
proof -
  let ?xs = "[ucast v OR 0x80, ucast (drop_bit 7 v) OR 0x80, ucast (drop_bit 14 v) OR 0x80,
            ucast (drop_bit 21 v) OR 0x80, ucast (drop_bit 28 v) OR 0x80, ucast (drop_bit 35 v) OR 0x80,
            ucast (drop_bit 42 v) OR 0x80, ucast (drop_bit 49 v) OR 0x80, ucast (drop_bit 56 v) OR (0x80 :: 8 word)]"
  have w: "written b (putVar64 b v) = ?xs"
    using assms(2) by (simp only: putVar64_nine[OF assms(1)]) (rule written_foldl_put8, simp)
  have "\<forall>x\<in>set ?xs. x AND 0x80 \<noteq> 0" by (simp only: list.set ball_simps cont_set) simp
  then have "getVar ?xs = None" by (rule getVar_all_cont)
  with w show ?thesis by simp
qed

text \<open>
  Claim C2, as amended. In a buffer with room for the bytes, decoding what
  \<^verbatim>\<open>putVar32\<close> wrote yields the value again, for every 32-bit value; decoding what
  \<^verbatim>\<open>putVar64\<close> wrote yields the value again for every 64-bit value below \<open>2 ^ 63\<close>.
  For a value from \<open>2 ^ 63\<close> on, \<^verbatim>\<open>putVar64\<close> returns after its third round of three
  septets: it has written nine bytes, each with the continuation bit, and a decoder
  of 7-bit groups finds no final byte among them.
\<close>

theorem putVar_roundtrip:
  "(offset b + 5 \<le> length (data b) \<longrightarrow>
      getVar (written b (putVar32 b v)) = Some (unat v, [])) \<and>
   (offset b + 9 \<le> length (data b) \<and> w < 2 ^ 63 \<longrightarrow>
      getVar (written b (putVar64 b w)) = Some (unat w, [])) \<and>
   (offset b + 9 \<le> length (data b) \<and> 2 ^ 63 \<le> w \<longrightarrow>
      length (written b (putVar64 b w)) = 9 \<and> getVar (written b (putVar64 b w)) = None)"
  using putVar32_decodes[of b v] putVar64_decodes[of w b] putVar64_large_undecodable[of w b]
  by blast

theorem putVar_roundtrip_witness:
  "offset zero_buffer + 9 \<le> length (data zero_buffer) \<and>
   (2 ^ 35 :: 64 word) < 2 ^ 63 \<and> (2 ^ 63 :: 64 word) \<le> 2 ^ 63 + 5 \<and>
   getVar (written zero_buffer (putVar32 zero_buffer 300)) = Some (300, []) \<and>
   getVar (written zero_buffer (putVar64 zero_buffer (2 ^ 35))) = Some (2 ^ 35, []) \<and>
   getVar (written zero_buffer (putVar64 zero_buffer (2 ^ 63 + 5))) = None"
proof -
  have r9: "offset zero_buffer + 9 \<le> length (data zero_buffer)"
    by (simp add: zero_buffer_def Buffer_new_def BUFFER_SIZE_def)
  then have r5: "offset zero_buffer + 5 \<le> length (data zero_buffer)" by simp
  have lt: "(2 ^ 35 :: 64 word) < 2 ^ 63" by simp
  have ge: "(2 ^ 63 :: 64 word) \<le> 2 ^ 63 + 5" by simp
  have u: "unat (300 :: 32 word) = 300" "unat (2 ^ 35 :: 64 word) = 2 ^ 35" by simp_all
  from putVar_roundtrip[of zero_buffer 300 "2 ^ 35"] r5 r9 lt u
  have a: "getVar (written zero_buffer (putVar32 zero_buffer 300)) = Some (300, [])"
    and b: "getVar (written zero_buffer (putVar64 zero_buffer (2 ^ 35))) = Some (2 ^ 35, [])"
    by simp_all
  from putVar_roundtrip[of zero_buffer 300 "2 ^ 63 + 5"] r9 ge
  have c: "getVar (written zero_buffer (putVar64 zero_buffer (2 ^ 63 + 5))) = None"
    by blast
  from r9 lt ge a b c show ?thesis by blast
qed

text \<open>
  The claim as stated, for every 64-bit value, fails at \<open>2 ^ 63\<close>: the nine bytes
  written all carry the continuation bit, and decoding them does not yield a value.
\<close>

theorem putVar64_top_bit_counterexample:
  "written zero_buffer (putVar64 zero_buffer (2 ^ 63))
     = [0x80, 0x80, 0x80, 0x80, 0x80, 0x80, 0x80, 0x80, 0x80] \<and>
   getVar (written zero_buffer (putVar64 zero_buffer (2 ^ 63))) = None"
  by code_simp

section \<open>Properties of the context table\<close>

text \<open>
  Claim C3, as amended. In a well-formed table, for every thread id that is not
  negative and whose page index is below \<^verbatim>\<open>_max_pages\<close>, \<^verbatim>\<open>Contexts::get\<close> returns the
  shared empty record or the slot of the thread id, and then the record in the slot
  satisfies the validity predicate. It returns the empty record when the page is not
  allocated and when the record in the slot fails the predicate.
\<close>

theorem Contexts_get_valid_or_empty:
  assumes "contexts_wf shift cs" and "0 \<le> tid" and "drop_bit shift tid < max_pages cs"
  shows "(Contexts_get shift cs tid = Inr EmptyContext \<or>
          (Contexts_get shift cs tid
             = Inr (PageSlot (nat (drop_bit shift tid)) (nat (tid AND DD_CONTEXT_PAGE_MASK shift))) \<and>
           context_valid (deref cs (PageSlot (nat (drop_bit shift tid))
                                             (nat (tid AND DD_CONTEXT_PAGE_MASK shift)))))) \<and>
         (pages cs ! nat (drop_bit shift tid) = None \<longrightarrow> Contexts_get shift cs tid = Inr EmptyContext) \<and>
         (\<forall>page. pages cs ! nat (drop_bit shift tid) = Some page \<and>
                  \<not> context_valid (page ! nat (tid AND DD_CONTEXT_PAGE_MASK shift))
                  \<longrightarrow> Contexts_get shift cs tid = Inr EmptyContext)"
proof -
  from assms(2) have "0 \<le> drop_bit shift tid" by simp
  then have nn: "\<not> drop_bit shift tid < 0" by simp
  show ?thesis
    using assms(3) nn
    by (cases "pages cs ! nat (drop_bit shift tid)")
       (auto simp: Contexts_get_def Let_def deref_def context_valid_def)
qed

theorem Contexts_get_valid_or_empty_witness:
  "contexts_wf 2 one_page_contexts \<and>
   Contexts_get 2 one_page_contexts 1 = Inr (PageSlot 0 1) \<and>
   Contexts_get 2 one_page_contexts 2 = Inr EmptyContext \<and>
   Contexts_get 2 one_page_contexts 5 = Inr EmptyContext"
proof -
  have a: "contexts_wf 2 one_page_contexts" by code_simp
  have b: "(0::int) \<le> 1" "(0::int) \<le> 2" "(0::int) \<le> 5" by simp_all
  have c: "drop_bit 2 (1::int) < max_pages one_page_contexts"
          "drop_bit 2 (2::int) < max_pages one_page_contexts"
          "drop_bit 2 (5::int) < max_pages one_page_contexts" by code_simp+
  have d: "\<not> context_valid (deref one_page_contexts (PageSlot (nat (drop_bit 2 2)) (nat (2 AND DD_CONTEXT_PAGE_MASK 2))))"
    by code_simp
  have e: "pages one_page_contexts ! nat (drop_bit 2 5) = None" by code_simp
  have f: "nat (drop_bit 2 (1::int)) = 0" "nat (1 AND DD_CONTEXT_PAGE_MASK 2) = 1" by code_simp+
  have g: "Contexts_get 2 one_page_contexts 1 \<noteq> Inr EmptyContext" by code_simp
  from Contexts_get_valid_or_empty[OF a b(1) c(1)] g f
  have 1: "Contexts_get 2 one_page_contexts 1 = Inr (PageSlot 0 1)" by simp
  from Contexts_get_valid_or_empty[OF a b(2) c(2)] d
  have 2: "Contexts_get 2 one_page_contexts 2 = Inr EmptyContext" by blast
  from Contexts_get_valid_or_empty[OF a b(3) c(3)] e
  have 3: "Contexts_get 2 one_page_contexts 5 = Inr EmptyContext" by blast
  from a 1 2 3 show ?thesis by blast
qed

text \<open>
  The claim as stated, for every thread id from 0 on, fails beyond the table: with
  two pages of four records, thread id 8 has page index 2 and the assertion
  \<^verbatim>\<open>pageIndex < _max_pages\<close> stops the call before any record is returned.
\<close>

theorem Contexts_get_assert_counterexample:
  "(0::int) \<le> 8 \<and> contexts_wf 2 one_page_contexts \<and>
   Contexts_get 2 one_page_contexts 8 = Inl AssertionFailed"
  by code_simp

section \<open>Properties of chunk rotation\<close>

lemma unat_word_of_int_64:
  assumes "0 \<le> x" and "x < 2 ^ 64"
  shows "unat (word_of_int x :: 64 word) = nat x"
proof -
  have "unat (word_of_int x :: 64 word) = nat (x mod 2 ^ 64)"
    by (simp add: unat_eq_nat_uint uint_word_of_int)
  also have "x mod 2 ^ 64 = x" using assms by simp
  finally show ?thesis .
qed

text \<open>
  The thresholds the constructor sets: the configured size, raised to 262144 bytes,
  and the configured time in microseconds, raised to 5 seconds, as long as the
  microseconds fit 64 bits. A size or time that is not positive switches the
  threshold off.
\<close>

lemma chunk_size_threshold:
  assumes "0 < a" and "a < 2 ^ 63"
  shows "unat (chunk_size (Recording_new a t m)) = max 262144 (nat a)"
proof (cases "a < 262144")
  case True
  with assms show ?thesis by (simp add: Recording_new_def)
next
  case False
  have "a < 2 ^ 64" using assms(2) by (rule less_le_trans) simp
  with assms(1) have "unat (word_of_int a :: 64 word) = nat a" by (simp add: unat_word_of_int_64)
  with False assms show ?thesis by (simp add: Recording_new_def)
qed

lemma chunk_time_threshold:
  assumes "0 < t" and "t \<le> 18446744073709"
  shows "unat (chunk_time (Recording_new a t m)) = max 5 (nat t) * 1000000"
proof -
  define u where "u = (if t < 5 then 5 else t)"
  have u: "5 \<le> u" "u \<le> 18446744073709" "nat u = max 5 (nat t)" using assms by (auto simp: u_def)
  have "(word_of_int u * 1000000 :: 64 word) = word_of_int (u * 1000000)" by simp
  moreover have "unat (word_of_int (u * 1000000) :: 64 word) = nat (u * 1000000)"
    using u by (intro unat_word_of_int_64) simp_all
  ultimately have "unat (word_of_int u * 1000000 :: 64 word) = nat u * 1000000"
    using u(1) by (simp add: nat_mult_distrib)
  with u(3) assms(1) show ?thesis by (simp add: Recording_new_def u_def)
qed

lemma thresholds_off:
  "a \<le> 0 \<Longrightarrow> chunk_size (Recording_new a t m) = MAX_JLONG"
  "t \<le> 0 \<Longrightarrow> chunk_time (Recording_new a t m) = MAX_JLONG"
  by (simp_all add: Recording_new_def)

lemma needSwitchChunk_thresholds:
  assumes "0 < a" and "a < 2 ^ 63" and "0 < t" and "t \<le> 18446744073709"
  shows "needSwitchChunk ((Recording_new a t m)\<lparr>bytes_written := n\<rparr>) wall_time
           = (max 262144 (nat a) \<le> unat n \<or> max 5 (nat t) * 1000000 \<le> unat (wall_time - m))"
proof -
  have s: "start_time (Recording_new a t m) = m" by (simp add: Recording_new_def)
  show ?thesis
    using chunk_size_threshold[OF assms(1,2), of t m] chunk_time_threshold[OF assms(3,4), of a m]
    by (simp add: needSwitchChunk_def word_le_nat_alt s)
qed

lemma needSwitchChunk_example:
  "chunk_size (Recording_new 1000 3 0) = 262144 \<and>
   chunk_time (Recording_new 1000 3 0) = 5000000 \<and>
   \<not> needSwitchChunk ((Recording_new 1000 3 0)\<lparr>bytes_written := 262143\<rparr>) 4999999 \<and>
   needSwitchChunk ((Recording_new 1000 3 0)\<lparr>bytes_written := 262144\<rparr>) 0 \<and>
   needSwitchChunk ((Recording_new 1000 3 0)\<lparr>bytes_written := 0\<rparr>) 5000000"
  by code_simp

text \<open>
  Claim C8. The time threshold should never be below 5 seconds. The constructor
  raises the configured seconds to 5 and then multiplies by \<^verbatim>\<open>1000000ULL\<close> in
  \<^verbatim>\<open>u64\<close>: for a configured 18446744073710 seconds the product wraps around to
  448384 microseconds, and \<^verbatim>\<open>needSwitchChunk\<close> asks for a new chunk one second after
  the start of a chunk that has no bytes written.
\<close>

theorem chunk_time_threshold_wraps:
  "chunk_time (Recording_new 0 18446744073710 0) = 448384 \<and>
   \<not> 5000000 \<le> chunk_time (Recording_new 0 18446744073710 0) \<and>
   bytes_written (Recording_new 0 18446744073710 0) = 0 \<and>
   needSwitchChunk (Recording_new 0 18446744073710 0) 1000000"
  by code_simp

section \<open>Properties of the liveness tracker\<close>

lemma sdiv_nonneg: "0 \<le> a \<Longrightarrow> 0 < b \<Longrightarrow> a sdiv b = a div (b::int)"
  by (cases "a = 0") (simp_all add: signed_divide_int_def sgn_if)

lemma stb_id: "0 \<le> x \<Longrightarrow> x < 2 ^ 31 \<Longrightarrow> signed_take_bit 31 (x::int) = x"
  by (simp add: signed_take_bit_int_eq_self_iff)

subsection \<open>Sizing at start\<close>

text \<open>
  When \<^verbatim>\<open>initialize\<close> runs for the first time on Java 11 or later, with the heap size
  known, the lookup of \<^verbatim>\<open>Class.getName\<close> succeeding, a positive sampling interval and
  a quotient that fits an \<^verbatim>\<open>int\<close>, it leaves \<^verbatim>\<open>_table_max_cap\<close> at the smaller of
  \<^verbatim>\<open>MAX_TRACKING_TABLE_SIZE\<close> and heap size divided by interval. \<^verbatim>\<open>initialize_table\<close>
  sets the capacity to the larger of 2048 and an eighth of that, and \<^verbatim>\<open>initialize\<close>
  then overwrites it: the table starts with the smaller of 2048 and
  \<^verbatim>\<open>_table_max_cap\<close> slots.
\<close>

lemma initialize_sizing:
  assumes "\<not> initialized s" and "11 \<le> java_version env" and "class_getName_found env"
      and "heap_max_size env = max_heap" and "0 \<le> max_heap"
      and "0 < interval" and "interval < 2 ^ 31" and "max_heap div interval < 2 ^ 31"
  shows "table_max_cap (snd (initialize MAX_TABLE env interval rhu s)) = min MAX_TABLE (max_heap div interval) \<and>
         table_cap (snd (initialize_table MAX_TABLE env interval (s\<lparr>initialized := True\<rparr>)))
           = max 2048 (min MAX_TABLE (max_heap div interval) sdiv 8) \<and>
         table_cap (snd (initialize MAX_TABLE env interval rhu s))
           = min 2048 (min MAX_TABLE (max_heap div interval)) \<and>
         table_size (snd (initialize MAX_TABLE env interval rhu s)) = 0 \<and>
         length (table (snd (initialize MAX_TABLE env interval rhu s)))
           = nat (min 2048 (min MAX_TABLE (max_heap div interval)))"
proof -
  have i: "signed_take_bit 31 interval = interval" using assms by (simp add: stb_id)
  have q0: "0 \<le> max_heap div interval" using assms by (simp add: pos_imp_zdiv_nonneg_iff)
  have q: "signed_take_bit 31 (max_heap sdiv interval) = max_heap div interval"
    using assms q0 by (simp add: sdiv_nonneg stb_id)
  have h: "max_heap \<noteq> -1" using assms by simp
  show ?thesis
    using assms(1-4) assms(6) h
    by (simp add: initialize_def initialize_table_def Let_def i q min_def)
qed

text \<open>Scenario S4: a heap of 1 GiB sampled every 512 KiB.\<close>

lemma initialize_sizing_S4:
  "table_max_cap (snd (initialize 262144 (example_jvm (2 ^ 30)) (512 * 1024) False fresh_tracker)) = 2048 \<and>
   table_cap (snd (initialize 262144 (example_jvm (2 ^ 30)) (512 * 1024) False fresh_tracker)) = 2048"
proof -
  have 1: "\<not> initialized fresh_tracker" by code_simp
  have 2: "11 \<le> java_version (example_jvm (2 ^ 30))" by code_simp
  have 3: "class_getName_found (example_jvm (2 ^ 30))" by code_simp
  have 4: "heap_max_size (example_jvm (2 ^ 30)) = 2 ^ 30" by code_simp
  have 5: "(0::int) \<le> 2 ^ 30" "(0::int) < 512 * 1024" "(512 * 1024 :: int) < 2 ^ 31"
          "(2 ^ 30 :: int) div (512 * 1024)  < 2 ^ 31" by simp_all
  from initialize_sizing[OF 1 2 3 4 5, of 262144 False] show ?thesis by simp
qed

text \<open>
  Claim C4. At start the table should have the larger of 2048 and an eighth of
  \<^verbatim>\<open>_table_max_cap\<close> slots, the value \<^verbatim>\<open>initialize_table\<close> computes so that the table
  grows at most three times. It does not. With a heap of 64 GiB, the interval of
  512 KiB and a limit of 262144 entries, \<^verbatim>\<open>_table_max_cap\<close> is 131072 and
  \<^verbatim>\<open>initialize_table\<close> sets the capacity to 16384; \<^verbatim>\<open>initialize\<close> then overwrites it
  with the smaller of 2048 and \<^verbatim>\<open>_table_max_cap\<close> and allocates 2048 slots, six
  doublings away from \<^verbatim>\<open>_table_max_cap\<close>.
\<close>

theorem initialize_overwrites_capacity:
  "table_max_cap (snd (initialize 262144 (example_jvm (64 * 2 ^ 30)) (512 * 1024) False fresh_tracker))
     = 131072 \<and>
   table_cap (snd (initialize_table 262144 (example_jvm (64 * 2 ^ 30)) (512 * 1024)
                     (fresh_tracker\<lparr>initialized := True\<rparr>)))
     = 16384 \<and>
   max 2048 (131072 sdiv 8) = (16384::int) \<and>
   table_cap (snd (initialize 262144 (example_jvm (64 * 2 ^ 30)) (512 * 1024) False fresh_tracker))
     = 2048 \<and>
   length (table (snd (initialize 262144 (example_jvm (64 * 2 ^ 30)) (512 * 1024) False fresh_tracker)))
     = 2048 \<and>
   (2048::int) * 2 ^ 6 = 131072"
  by code_simp

subsection \<open>The cleanup\<close>

text \<open>
  Claim C5. After a cleanup that advances the epoch, the entries whose referent is
  alive should be the ones left in the table, each with its weak reference. The code
  does not keep to this. One entry, referent alive, one collection since the last
  cleanup: the entry stays at index 0 with its age raised by 1, but the statement
  that clears the reference of the slot moved from clears the slot just written,
  since both are slot 0. The entry left in the table has a null reference, for
  which \<^verbatim>\<open>IsSameObject(ref, NULL)\<close> is true, and nothing was released.
\<close>

theorem cleanup_table_drops_survivor_ref:
  "\<not> IsSameObject_null (example_jvm (2 ^ 30)) (te_ref (table one_entry_tracker ! 0)) \<and>
   table_size (cleanup_table (example_jvm (2 ^ 30)) one_entry_tracker) = 1 \<and>
   te_age (table (cleanup_table (example_jvm (2 ^ 30)) one_entry_tracker) ! 0) = 1 \<and>
   te_ref (table (cleanup_table (example_jvm (2 ^ 30)) one_entry_tracker) ! 0) = None \<and>
   IsSameObject_null (example_jvm (2 ^ 30))
     (te_ref (table (cleanup_table (example_jvm (2 ^ 30)) one_entry_tracker) ! 0)) \<and>
   released (cleanup_table (example_jvm (2 ^ 30)) one_entry_tracker) = []"
  by code_simp

subsection \<open>The invariant of the table\<close>




lemma cleanup_table_cap:
  "table_cap (cleanup_table env s) = table_cap s \<and> table_max_cap (cleanup_table env s) = table_max_cap s"
  by (simp add: cleanup_table_def Let_def split: prod.splits)



text \<open>One pass of \<^verbatim>\<open>track\<close> from the label \<^verbatim>\<open>retry\<close>, case by case.\<close>

lemma track_retry_refused:
  "\<not> try_lock_shared env retried \<Longrightarrow> track_retry env retried ref ev tid n fr s = Inr s"
  by (subst track_retry.simps) simp



lemma track_retry_full_first:
  assumes "try_lock_shared env False" and "table_size s = table_cap s"
  shows "track_retry env False ref ev tid n fr s =
           (if table_cap s < table_max_cap s
            then track_retry env True ref ev tid n fr (grow_table env (cleanup_table env s))
            else Inr ((cleanup_table env s)\<lparr>released := released (cleanup_table env s) @ [DeleteFrames fr]\<rparr>))"
  using assms cleanup_table_cap[of env s]
  by (subst track_retry.simps) (simp add: claim_index_def Let_def)














lemma grow_table_size:
  "table_size (grow_table env s) = table_size s \<and> released (grow_table env s) = released s \<and>
   table_max_cap (grow_table env s) = table_max_cap s"
  by (simp add: grow_table_def Let_def)





text \<open>
  When \<^verbatim>\<open>realloc\<close> fails in the growth step, \<^verbatim>\<open>_table_cap\<close> has been raised already
  and \<^verbatim>\<open>_table\<close> still points to the old block. The second pass claims the index 2
  of a block of two slots and writes beyond it.
\<close>

lemma track_failed_realloc:
  "table_cap (grow_table ((example_jvm (2 ^ 30))\<lparr>realloc_ok := False\<rparr>)
                (cleanup_table ((example_jvm (2 ^ 30))\<lparr>realloc_ok := False\<rparr>) full_tracker)) = 4 \<and>
   length (table (grow_table ((example_jvm (2 ^ 30))\<lparr>realloc_ok := False\<rparr>)
                (cleanup_table ((example_jvm (2 ^ 30))\<lparr>realloc_ok := False\<rparr>) full_tracker))) = 2 \<and>
   track ((example_jvm (2 ^ 30))\<lparr>realloc_ok := False\<rparr>) () 43 0 [] full_tracker
     = Inl WriteBeyondBlock \<and>
   track (example_jvm (2 ^ 30)) () 43 (- 1) [] one_entry_tracker = Inl BadArrayLength"
  by code_simp

subsection \<open>A refused lock\<close>

text \<open>
  Claim C9, as amended. When \<^verbatim>\<open>tryLockShared\<close> fails, \<^verbatim>\<open>track\<close> returns at once from
  the label \<^verbatim>\<open>retry\<close> and the tracker is as it was at the label. When it fails on the
  first pass, the whole call leaves the tracker unchanged: no entry added, size and
  capacity as they were, nothing released. When it is granted on the first pass, the
  table (with \<open>0 \<le> size \<le> cap \<le> max_cap\<close> and its entries within the block) is
  full and may grow, and it fails after \<^verbatim>\<open>goto retry\<close>, the call has run
  \<^verbatim>\<open>cleanup_table\<close> and the growth step by then, and leaves the tracker as these two
  made it: no entry added, the size that of the cleaned table.
\<close>

theorem track_lock_failure:
  "(\<not> try_lock_shared env retried \<longrightarrow> track_retry env retried ref ev tid n fr s = Inr s) \<and>
   (\<not> try_lock_shared env False \<longrightarrow> track env ev tid n fr s = Inr s) \<and>
   (table_inv s \<and> size_in_block s \<and> table_max_cap s \<noteq> 0 \<and> new_weak_ref env = Some ref \<and>
    try_lock_shared env False \<and> \<not> try_lock_shared env True \<and>
    table_size s = table_cap s \<and> table_cap s < table_max_cap s \<longrightarrow>
      track env ev tid n fr s = Inr (grow_table env (cleanup_table env s)) \<and>
      table_size (grow_table env (cleanup_table env s)) = table_size (cleanup_table env s) \<and>
      released (grow_table env (cleanup_table env s)) = released (cleanup_table env s))"
proof (intro conjI impI)
  assume "\<not> try_lock_shared env retried"
  then show "track_retry env retried ref ev tid n fr s = Inr s" by (rule track_retry_refused)
next
  assume "\<not> try_lock_shared env False"
  then show "track env ev tid n fr s = Inr s"
    by (simp add: track_def track_retry_refused split: option.splits)
next
  assume "table_inv s \<and> size_in_block s \<and> table_max_cap s \<noteq> 0 \<and> new_weak_ref env = Some ref \<and>
    try_lock_shared env False \<and> \<not> try_lock_shared env True \<and>
    table_size s = table_cap s \<and> table_cap s < table_max_cap s"
  then show "track env ev tid n fr s = Inr (grow_table env (cleanup_table env s))"
    by (simp add: track_def track_retry_full_first track_retry_refused)
next
  show "table_size (grow_table env (cleanup_table env s)) = table_size (cleanup_table env s)"
    by (simp add: grow_table_size)
next
  show "released (grow_table env (cleanup_table env s)) = released (cleanup_table env s)"
    by (simp add: grow_table_size)
qed

theorem track_lock_failure_witness:
  "\<not> try_lock_shared ((example_jvm (2 ^ 30))\<lparr>try_lock_shared := (\<lambda>retried. False)\<rparr>) False \<and>
   track ((example_jvm (2 ^ 30))\<lparr>try_lock_shared := (\<lambda>retried. False)\<rparr>) () 42 0 [] one_entry_tracker
     = Inr one_entry_tracker \<and>
   table_inv full_tracker \<and> size_in_block full_tracker \<and>
   table_max_cap full_tracker \<noteq> 0 \<and> new_weak_ref retry_refused_jvm = Some 7 \<and>
   try_lock_shared retry_refused_jvm False \<and> \<not> try_lock_shared retry_refused_jvm True \<and>
   table_size full_tracker = table_cap full_tracker \<and>
   table_cap full_tracker < table_max_cap full_tracker \<and>
   track retry_refused_jvm () 43 0 [] full_tracker
     = Inr (grow_table retry_refused_jvm (cleanup_table retry_refused_jvm full_tracker)) \<and>
   table_size (grow_table retry_refused_jvm (cleanup_table retry_refused_jvm full_tracker)) = 1"
proof -
  let ?env = "(example_jvm (2 ^ 30))\<lparr>try_lock_shared := (\<lambda>retried. False)\<rparr>"
  have a: "\<not> try_lock_shared ?env False" by (simp add: example_jvm_def)
  from track_lock_failure[where env = ?env and ev = "()" and tid = 42 and n = 0 and fr = "[]"
         and s = one_entry_tracker] a
  have b: "track ?env () 42 0 [] one_entry_tracker = Inr one_entry_tracker" by blast
  have c0: "table_inv full_tracker" "size_in_block full_tracker" by code_simp+
  have c1: "table_max_cap full_tracker \<noteq> 0" by code_simp
  have c2: "new_weak_ref retry_refused_jvm = Some 7" by code_simp
  have c3: "try_lock_shared retry_refused_jvm False" by code_simp
  have c4: "\<not> try_lock_shared retry_refused_jvm True" by code_simp
  have c5: "table_size full_tracker = table_cap full_tracker" by code_simp
  have c6: "table_cap full_tracker < table_max_cap full_tracker" by code_simp
  have c7: "table_size (cleanup_table retry_refused_jvm full_tracker) = 1" by code_simp
  from track_lock_failure[where env = retry_refused_jvm and ref = 7 and ev = "()" and tid = 43
         and n = 0 and fr = "[]" and s = full_tracker] c0 c1 c2 c3 c4 c5 c6
  have d: "track retry_refused_jvm () 43 0 [] full_tracker
             = Inr (grow_table retry_refused_jvm (cleanup_table retry_refused_jvm full_tracker))"
          "table_size (grow_table retry_refused_jvm (cleanup_table retry_refused_jvm full_tracker))
             = table_size (cleanup_table retry_refused_jvm full_tracker)"
    by blast+
  from a b c0 c1 c2 c3 c4 c5 c6 d c7 show ?thesis by simp
qed

text \<open>
  The claim as stated has the table unchanged and the size not modified whenever the
  lock is refused. With a full table of two slots that may grow to four, the lock
  granted on the first pass and refused after \<^verbatim>\<open>goto retry\<close>, the call returns from
  the refused lock with the size at 1 instead of 2, the capacity at 4 instead of 2,
  and one weak reference and its frames released.
\<close>

theorem track_lock_failure_counterexample:
  "try_lock_shared retry_refused_jvm False \<and> \<not> try_lock_shared retry_refused_jvm True \<and>
   table_size full_tracker = 2 \<and> table_cap full_tracker = 2 \<and> released full_tracker = [] \<and>
   (case track retry_refused_jvm () 43 0 [] full_tracker of
      Inl f \<Rightarrow> False
    | Inr s' \<Rightarrow> s' \<noteq> full_tracker \<and> table_size s' = 1 \<and> table_cap s' = 4 \<and>
                released s' = [DeleteWeakGlobalRef (Some 2), DeleteFrames []])"
  by code_simp

end
